theory Spec2Isabelle
  imports Complex_Main "HOL-Library.Word"
begin

section \<open>DocShield: the watermark pipeline of \<^verbatim>\<open>src/lib/watermark.ts\<close>\<close>

text \<open>
  The pipeline draws through the browser's canvas API. The embedding keeps what the
  TypeScript computes itself: the dimensions, the positions, the text wrapping, the
  per-pixel loop and the sequence of drawing calls issued on the main context.

  Conventions.
  \<^item> A JavaScript number is an IEEE double: a \<^typ>\<open>real\<close> that is a binary64 value, and
    every arithmetic operation rounds its exact result to the nearest double.
  \<^item> The dimensions of an image or canvas element are unsigned 32-bit integers.
  \<^item> A JavaScript string is the list of its UTF-16 code units.
  \<^item> \<open>getContext("2d")\<close> may return null: each acquisition is a boolean of the environment.
  \<^item> \<open>Math.random()\<close> draws and the function \<open>Math.sin\<close>, which the language leaves to
    the implementation, are parameters.
\<close>

subsection \<open>Double precision arithmetic\<close>

text \<open>
  A double has 53 significant bits. Its exponent is at least \<open>- 1022\<close> (below
  \<open>2^- 1022\<close> the spacing stays \<open>2^- 1074\<close>), so the spacing of the doubles around \<open>x\<close> is
  \<open>ulp x\<close>. \<open>fl x\<close> is the double nearest to \<open>x\<close>, a tie going to the even significand;
  a result of size \<open>2^1024\<close> or more stands for an infinity. \<open>dmul\<close>, \<open>ddiv\<close>, \<open>dadd\<close> and
  \<open>dsub\<close> are \<open>*\<close>, \<open>/\<close>, \<open>+\<close> and \<open>-\<close> on doubles; a division by zero, whose result
  is an infinity, is written out where the code can reach it. A decimal literal such
  as \<open>1.1\<close> denotes \<open>fl 1.1\<close>; literals that are doubles already (\<open>2500\<close>, \<open>1.25\<close>) are
  written as they are. \<open>Math.round x\<close> is \<open>\<lfloor>x + 1/2\<rfloor>\<close>, which is \<^const>\<open>round\<close>, and
  \<open>Math.min\<close>, \<open>Math.max\<close> and the comparisons are exact.
\<close>

definition pow2 :: "int \<Rightarrow> real" where
  "pow2 k = 2 powr real_of_int k"

definition exponent :: "real \<Rightarrow> int" where
  "exponent x = max \<lfloor>log 2 \<bar>x\<bar>\<rfloor> (- 1022)"

definition ulp :: "real \<Rightarrow> real" where
  "ulp x = pow2 (exponent x - 52)"

definition roundTiesToEven :: "real \<Rightarrow> int" where
  "roundTiesToEven y =
     (let f = \<lfloor>y\<rfloor>
      in if y - real_of_int f < 1 / 2 then f
         else if 1 / 2 < y - real_of_int f then f + 1
         else if even f then f
         else f + 1)"

definition fl :: "real \<Rightarrow> real" where
  "fl x = (if x = 0 then 0 else real_of_int (roundTiesToEven (x / ulp x)) * ulp x)"

definition dmul :: "real \<Rightarrow> real \<Rightarrow> real" where
  "dmul a b = fl (a * b)"

definition ddiv :: "real \<Rightarrow> real \<Rightarrow> real" where
  "ddiv a b = fl (a / b)"

definition dadd :: "real \<Rightarrow> real \<Rightarrow> real" where
  "dadd a b = fl (a + b)"

definition dsub :: "real \<Rightarrow> real \<Rightarrow> real" where
  "dsub a b = fl (a - b)"

subsection \<open>Canvas elements\<close>

record canvas =
  width :: nat
  height :: nat

text \<open>\<open>document.createElement("canvas")\<close>: a new canvas is 300 by 150.\<close>

definition createCanvas :: canvas where
  "createCanvas = \<lparr>width = 300, height = 150\<rparr>"

text \<open>
  Assigning a number to \<open>canvas.width\<close> or \<open>canvas.height\<close>: the attribute is an
  \<open>unsigned long\<close>, so the number is truncated towards zero and reduced modulo \<open>2^32\<close>;
  a result above \<open>2^31 - 1\<close> is replaced by the attribute's default.
\<close>

definition IntegerPart :: "real \<Rightarrow> int" where
  "IntegerPart x = (if x < 0 then \<lceil>x\<rceil> else \<lfloor>x\<rfloor>)"

definition toUnsignedLong :: "real \<Rightarrow> nat" where
  "toUnsignedLong x = nat (IntegerPart x mod 2 ^ 32)"

definition setDimension :: "nat \<Rightarrow> real \<Rightarrow> nat" where
  "setDimension dflt x = (let n = toUnsignedLong x in if n \<le> 2147483647 then n else dflt)"

definition setWidth :: "real \<Rightarrow> canvas \<Rightarrow> canvas" where
  "setWidth x c = c\<lparr>width := setDimension 300 x\<rparr>"

definition setHeight :: "real \<Rightarrow> canvas \<Rightarrow> canvas" where
  "setHeight x c = c\<lparr>height := setDimension 150 x\<rparr>"

subsection \<open>resizeImage\<close>

definition MAX_WIDTH :: real where
  "MAX_WIDTH = 2500"

definition MAX_HEIGHT :: real where
  "MAX_HEIGHT = 2500"

text \<open>
  \<open>Math.min(MAX_WIDTH / width, MAX_HEIGHT / height)\<close>. In JavaScript a positive number
  divided by zero is \<open>+Infinity\<close>, and \<open>Math.min\<close> then returns the other argument; in HOL
  \<open>x / 0 = 0\<close>, so the two cases are written out. The factor is only computed when one
  dimension exceeds its maximum, hence never with both dimensions zero.
\<close>

definition scaleFactor :: "real \<Rightarrow> real \<Rightarrow> real" where
  "scaleFactor w h =
     (if w = 0 then ddiv MAX_HEIGHT h
      else if h = 0 then ddiv MAX_WIDTH w
      else min (ddiv MAX_WIDTH w) (ddiv MAX_HEIGHT h))"

text \<open>
  The image is given by its \<open>width\<close> and \<open>height\<close>, which are \<open>unsigned long\<close>; \<open>ctx\<close> tells
  whether the temporary canvas yields a 2D context. Without one the untouched new
  canvas is returned.
\<close>

definition resizeImage :: "bool \<Rightarrow> 32 word \<times> 32 word \<Rightarrow> canvas" where
  "resizeImage ctx img =
     (let tempCanvas = createCanvas in
      if \<not> ctx then tempCanvas
      else
        let w = real (unat (fst img));
            h = real (unat (snd img));
            (w', h') =
              (if w > MAX_WIDTH \<or> h > MAX_HEIGHT
               then let s = scaleFactor w h
                    in (real_of_int (round (dmul w s)), real_of_int (round (dmul h s)))
               else (w, h))
        in setHeight h' (setWidth w' tempCanvas))"

subsection \<open>wrapText\<close>

type_synonym js_string = "nat list"

text \<open>
  The code units that \<open>String.prototype.trim\<close> strips and that \<open>\s\<close> matches: tab, line
  feed, vertical tab, form feed, carriage return, space, no-break space, U+1680,
  U+2000 to U+200A, U+2028, U+2029, U+202F, U+205F, U+3000 and U+FEFF.
\<close>

definition isWhiteSpace :: "nat \<Rightarrow> bool" where
  "isWhiteSpace c =
     (c \<in> {9, 10, 11, 12, 13, 32, 160, 5760, 8232, 8233, 8239, 8287, 12288, 65279}
      \<or> (8192 \<le> c \<and> c \<le> 8202))"

definition trim :: "js_string \<Rightarrow> js_string" where
  "trim s = rev (dropWhile isWhiteSpace (rev (dropWhile isWhiteSpace s)))"

text \<open>
  \<open>s.split(/\s+/)\<close>: the pieces between the maximal runs of white space. The empty
  string gives one empty piece, and a run at either end gives an empty piece there.
\<close>

function split_ws :: "js_string \<Rightarrow> js_string list" where
  "split_ws s =
     (case dropWhile (\<lambda>c. \<not> isWhiteSpace c) s of
        [] \<Rightarrow> [s]
      | c # rest \<Rightarrow>
          takeWhile (\<lambda>c. \<not> isWhiteSpace c) s # split_ws (dropWhile isWhiteSpace rest))"
  by pat_completeness auto
termination
proof (relation "measure length", goal_cases)
  case 1
  show ?case by simp
next
  case (2 s c rest)
  have "length (dropWhile isWhiteSpace rest) \<le> length rest"
    by (rule length_dropWhile_le)
  moreover have "length (c # rest) \<le> length s"
    using 2 length_dropWhile_le[of "\<lambda>c. \<not> isWhiteSpace c" s] by simp
  ultimately show ?case by simp
qed

declare split_ws.simps [simp del]

text \<open>\<open>testLine.length * charWidth\<close>: the estimated width of a line.\<close>

definition lineWidth :: "real \<Rightarrow> js_string \<Rightarrow> real" where
  "lineWidth charWidth line = dmul (real (length line)) charWidth"

text \<open>
  The body of \<open>words.forEach\<close>, on the pair of \<open>lines\<close> and \<open>currentLine\<close>. An empty
  string is falsy, so \<open>currentLine ? a : b\<close> tests for a non-empty line.
\<close>

definition wrapStep ::
  "real \<Rightarrow> real \<Rightarrow> js_string list \<times> js_string \<Rightarrow> js_string \<Rightarrow> js_string list \<times> js_string"
where
  "wrapStep maxWidth charWidth st word =
     (let lines = fst st;
          currentLine = snd st;
          testLine = (if currentLine \<noteq> [] then currentLine @ [32] @ word else word);
          testWidth = lineWidth charWidth testLine
      in if testWidth > maxWidth
         then (if currentLine \<noteq> [] then lines @ [currentLine] else lines, word)
         else (lines, testLine))"

definition wrapText :: "js_string \<Rightarrow> real \<Rightarrow> real \<Rightarrow> js_string list" where
  "wrapText text maxWidth fontSize =
     (let words = split_ws (trim text);
          charWidth = dmul fontSize (fl 0.55);
          st = foldl (wrapStep maxWidth charWidth) ([], []) words;
          lines = fst st;
          currentLine = snd st
      in if currentLine \<noteq> [] then lines @ [currentLine] else lines)"

subsection \<open>Calls on the main 2D context\<close>

text \<open>
  The pipeline's effect on the output canvas is the sequence of calls it issues on the
  canvas's context. The log holds the calls whose arguments are finite numbers; a
  \<open>drawImage\<close> with a \<open>NaN\<close> argument draws nothing and is left out.
\<close>

datatype image_source = ResizedCanvas | PatternCanvas

datatype ctx_op =
    SetFillStyle string
  | SetFont bool real
  | SetTextAlign string
  | FillRect real real real real
  | DrawImage image_source real real real real
  | DrawImageSlice image_source real real real real real real real real
  | FillText js_string real real
  | PutImageData "8 word list"

subsection \<open>warpTextColumns and applyWatermark\<close>

text \<open>
  The loop \<open>for (let x = 0; x < width; x++)\<close>, from column \<open>x\<close> on, with the platform's
  \<open>Math.sin\<close> as \<open>msin\<close>. The counter is a double that counts exactly up to \<open>2^53\<close>.
\<close>

function warpLoop ::
  "(real \<Rightarrow> real) \<Rightarrow> nat \<Rightarrow> real \<Rightarrow> real \<Rightarrow> real \<Rightarrow> real \<Rightarrow> real \<Rightarrow> real \<Rightarrow> ctx_op list"
where
  "warpLoop msin x w h amplitude frequency phase baseShift =
     (if real x < w
      then (let wave = dmul amplitude (msin (dadd (dmul frequency (real x)) phase));
                offset = round (dadd baseShift wave)
            in DrawImageSlice PatternCanvas (real x) 0 1 h (real x) (real_of_int offset) 1 h
               # warpLoop msin (Suc x) w h amplitude frequency phase baseShift)
      else [])"
  by pat_completeness auto
termination
proof (relation "measure (\<lambda>(s, x, w, h, a, f, p, b). nat \<lceil>w\<rceil> - x)", goal_cases)
  case 1
  show ?case by simp
next
  case (2 msin x w h amplitude frequency phase baseShift)
  then have "int x < \<lceil>w\<rceil>" by (simp add: less_ceiling_iff)
  then show ?case by simp
qed

declare warpLoop.simps [simp del]

definition warpTextColumns ::
  "(real \<Rightarrow> real) \<Rightarrow> real \<Rightarrow> real \<Rightarrow> real \<Rightarrow> real \<Rightarrow> real \<Rightarrow> real \<Rightarrow> ctx_op list"
where
  "warpTextColumns msin w h amplitude frequency phase baseShift =
     warpLoop msin 0 w h amplitude frequency phase baseShift"

text \<open>
  The three \<open>Math.random()\<close> draws of \<open>applyWatermark\<close>, in the order of the calls; a
  draw is a double that is at least 0 and less than 1.
\<close>

record wave_random =
  rndAmplitude :: real
  rndFrequency :: real
  rndPhase :: real

definition watermarkFontSize :: "real \<Rightarrow> real \<Rightarrow> real" where
  "watermarkFontSize finalWidth finalHeight = max 8 (ddiv (min finalWidth finalHeight) 70)"

definition extraPadding :: "real \<Rightarrow> real \<Rightarrow> real" where
  "extraPadding finalWidth finalHeight =
     real_of_int (round (dmul (watermarkFontSize finalWidth finalHeight) 10))"

definition patternWidth :: "real \<Rightarrow> real \<Rightarrow> real" where
  "patternWidth finalWidth finalHeight =
     dadd finalWidth (dmul (extraPadding finalWidth finalHeight) 2)"

definition patternHeight :: "real \<Rightarrow> real \<Rightarrow> real" where
  "patternHeight finalWidth finalHeight =
     dadd finalHeight (dmul (extraPadding finalWidth finalHeight) 5)"

definition waveAmplitude :: "wave_random \<Rightarrow> real \<Rightarrow> real" where
  "waveAmplitude rnd finalHeight =
     max 5 (ddiv finalHeight (dadd 15 (dmul (rndAmplitude rnd) 5)))"

definition waveFrequency :: "wave_random \<Rightarrow> real \<Rightarrow> real" where
  "waveFrequency rnd finalWidth =
     max (fl 0.004) (ddiv (dadd 8 (dmul (rndFrequency rnd) 4)) finalWidth)"

definition wavePhase :: "wave_random \<Rightarrow> real" where
  "wavePhase rnd = dmul (dmul (rndPhase rnd) 2) (fl pi)"

definition waveBaseShift :: "real \<Rightarrow> real" where
  "waveBaseShift finalHeight = dmul (- finalHeight) (fl 0.1)"

text \<open>
  The result is the pattern canvas and the calls on the main context; \<open>ctx\<close> tells
  whether the pattern canvas yields a 2D context. With \<open>finalWidth = 0\<close> the frequency
  is \<open>+Infinity\<close> in JavaScript (in HOL the quotient would be \<open>0\<close>): every offset is
  \<open>NaN\<close> and no column is drawn. The text tiled into the pattern canvas by
  \<open>drawHorizontalTextPattern\<close> is content of that canvas, not of the main context.
\<close>

definition applyWatermark ::
  "(real \<Rightarrow> real) \<Rightarrow> bool \<Rightarrow> wave_random \<Rightarrow> real \<Rightarrow> real \<Rightarrow> canvas \<times> ctx_op list"
where
  "applyWatermark msin ctx rnd finalWidth finalHeight =
     (let pw = patternWidth finalWidth finalHeight;
          ph = patternHeight finalWidth finalHeight;
          patternCanvas = setHeight ph (setWidth pw createCanvas)
      in if \<not> ctx then (patternCanvas, [])
         else if finalWidth = 0 then (patternCanvas, [])
         else
           let amplitude = waveAmplitude rnd finalHeight;
               frequency = waveFrequency rnd finalWidth;
               phase = wavePhase rnd;
               baseShift = waveBaseShift finalHeight
           in (patternCanvas,
               warpTextColumns msin pw ph amplitude frequency phase baseShift))"

subsection \<open>applyGrayscaleMask\<close>

text \<open>
  \<open>ImageData.data\<close> is a \<open>Uint8ClampedArray\<close>: its elements are bytes, a read past the
  end gives \<open>undefined\<close>, a write past the end is ignored, and a stored number is
  converted by \<open>ToUint8Clamp\<close> (\<open>NaN\<close> becomes 0, ties round to the even neighbour).
\<close>

definition ToUint8Clamp :: "real \<Rightarrow> 8 word" where
  "ToUint8Clamp x =
     (if x \<le> 0 then 0
      else if 255 \<le> x then 255
      else let f = \<lfloor>x\<rfloor>
           in if real_of_int f + 0.5 < x then word_of_int (f + 1)
              else if x < real_of_int f + 0.5 then word_of_int f
              else if even f then word_of_int f
              else word_of_int (f + 1))"

definition readByte :: "8 word list \<Rightarrow> nat \<Rightarrow> 8 word option" where
  "readByte a i = (if i < length a then Some (a ! i) else None)"

text \<open>
  \<open>0.3 * data[i] + 0.59 * data[i + 1] + 0.11 * data[i + 2]\<close>, the products first and the
  sums from the left; in \<open>grayAt\<close>, \<open>None\<close> is \<open>NaN\<close>, the result when an operand is
  \<open>undefined\<close>.
\<close>

definition luminosity :: "real \<Rightarrow> real \<Rightarrow> real \<Rightarrow> real" where
  "luminosity r g b = dadd (dadd (dmul (fl 0.3) r) (dmul (fl 0.59) g)) (dmul (fl 0.11) b)"

definition grayAt :: "8 word list \<Rightarrow> nat \<Rightarrow> real option" where
  "grayAt d i =
     (case (readByte d i, readByte d (i + 1), readByte d (i + 2)) of
        (Some r, Some g, Some b) \<Rightarrow>
          Some (luminosity (real (unat r)) (real (unat g)) (real (unat b)))
      | _ \<Rightarrow> None)"

definition storeByte :: "real option \<Rightarrow> 8 word" where
  "storeByte v = (case v of None \<Rightarrow> 0 | Some x \<Rightarrow> ToUint8Clamp x)"

text \<open>The loop \<open>for (let i = 0; i < imageData.data.length; i += 4)\<close>, from index \<open>i\<close> on.\<close>

function maskLoop :: "nat \<Rightarrow> 8 word list \<Rightarrow> 8 word list \<Rightarrow> 8 word list" where
  "maskLoop i maskData d =
     (if i < length d
      then maskLoop (i + 4) maskData
             (if readByte maskData i = Some 0
              then (let gray = grayAt d i
                    in d[i := storeByte gray, i + 1 := storeByte gray, i + 2 := storeByte gray])
              else d)
      else d)"
  by pat_completeness auto
termination
  by (relation "measure (\<lambda>(i, m, d). length d - i)") (auto simp: Let_def)

declare maskLoop.simps [simp del]

text \<open>
  \<open>imageData\<close> is what \<open>getImageData\<close> reads from the main canvas and \<open>maskData\<close> what it
  reads from the mask canvas after \<open>createScribblePattern\<close> has drawn on it; both are
  produced by the browser's rasteriser. \<open>ctx\<close> tells whether the mask canvas yields a
  2D context. The result is the calls on the main context.
\<close>

definition applyGrayscaleMask :: "bool \<Rightarrow> 8 word list \<Rightarrow> 8 word list \<Rightarrow> ctx_op list" where
  "applyGrayscaleMask ctx imageData maskData =
     (if \<not> ctx then [] else [PutImageData (maskLoop 0 maskData imageData)])"

subsection \<open>processImage\<close>

record env =
  mainCtx :: bool
  resizeCtx :: bool
  patternCtx :: bool
  maskCtx :: bool
  mathSin :: "real \<Rightarrow> real"
  waveRandom :: wave_random
  mainPixels :: "8 word list"
  maskPixels :: "8 word list"

text \<open>
  What a run leaves behind: the output canvas (\<open>None\<close> when the argument was null), the
  calls on its context, whether an exception ended the run, and how often \<open>setPreview\<close>
  was invoked.
\<close>

record run =
  surface :: "canvas option"
  calls :: "ctx_op list"
  thrown :: bool
  previews :: nat

definition caption :: js_string where
  "caption = map of_char ''Protect your documents with DocShield.''"

text \<open>
  \<open>drawImage\<close> raises \<open>InvalidStateError\<close> for a source canvas with a zero dimension;
  nothing in \<open>processImage\<close> catches it.
\<close>

definition processImage :: "env \<Rightarrow> 32 word \<times> 32 word \<Rightarrow> js_string \<Rightarrow> canvas option \<Rightarrow> run" where
  "processImage e img watermarkText canvas =
     (case canvas of
        None \<Rightarrow> \<lparr>surface = None, calls = [], thrown = False, previews = 0\<rparr>
      | Some c \<Rightarrow>
          if \<not> mainCtx e
          then \<lparr>surface = Some c, calls = [], thrown = False, previews = 0\<rparr>
          else
            let resizedCanvas = resizeImage (resizeCtx e) img;
                imgWidth = real (width resizedCanvas);
                imgHeight = real (height resizedCanvas);
                canvasWidth = dmul imgWidth (fl 1.1);
                canvasHeight = dmul imgHeight 1.25;
                c' = setHeight canvasHeight (setWidth canvasWidth c);
                imgX = ddiv (dsub canvasWidth imgWidth) 2;
                imgY = dmul (dsub canvasHeight imgHeight) (fl 0.15);
                background = [SetFillStyle ''white'', FillRect 0 0 canvasWidth canvasHeight]
            in if width resizedCanvas = 0 \<or> height resizedCanvas = 0
               then \<lparr>surface = Some c', calls = background, thrown = True, previews = 0\<rparr>
               else
                 let fontSize = max 14 (ddiv (min imgWidth imgHeight) 50);
                     watermarkTop = dadd (dadd imgY imgHeight) (dmul fontSize 1.5);
                     websiteTop = dadd watermarkTop (dmul fontSize 2);
                     wrappedLines = wrapText watermarkText (dmul canvasWidth (fl 0.9)) fontSize;
                     texts =
                       map (\<lambda>(index, line).
                              FillText line (dmul canvasWidth (fl 0.05))
                                (dadd watermarkTop (dmul (dmul (real index) fontSize) (fl 1.2))))
                         (enumerate 0 wrappedLines)
                 in \<lparr>surface = Some c',
                     calls =
                       background
                       @ [DrawImage ResizedCanvas imgX imgY imgWidth imgHeight,
                          SetFont True fontSize, SetFillStyle ''black'', SetTextAlign ''start'']
                       @ texts
                       @ [SetFont False fontSize,
                          FillText caption (dmul canvasWidth (fl 0.05)) websiteTop]
                       @ snd (applyWatermark (mathSin e) (patternCtx e) (waveRandom e)
                                canvasWidth canvasHeight)
                       @ applyGrayscaleMask (maskCtx e) (mainPixels e) (maskPixels e),
                     thrown = False,
                     previews = 1\<rparr>)"

subsection \<open>Notions for the properties\<close>




text \<open>
  The environment of the examples: every context is acquired, \<open>Math.sin\<close> is the
  rounded sine, the random draws are 0 and the pixel arrays are empty; and a text of
  three words of twelve letters.
\<close>

definition idealEnv :: env where
  "idealEnv =
     \<lparr>mainCtx = True, resizeCtx = True, patternCtx = True, maskCtx = True,
      mathSin = (\<lambda>x. fl (sin x)),
      waveRandom = \<lparr>rndAmplitude = 0, rndFrequency = 0, rndPhase = 0\<rparr>,
      mainPixels = [], maskPixels = []\<rparr>"

definition overlapText :: js_string where
  "overlapText = map of_char ''AAAAAAAAAAAA BBBBBBBBBBBB CCCCCCCCCCCC''"

section \<open>Properties\<close>

subsection \<open>Rounding to a double\<close>

lemma pow2_pos [simp]: "0 < pow2 k"
  by (simp add: pow2_def)

lemma pow2_nonneg [simp]: "0 \<le> pow2 k"
  by (simp add: pow2_def)

lemma pow2_neq0 [simp]: "pow2 k \<noteq> 0"
  by (simp add: pow2_def)

lemma pow2_add: "pow2 (a + b) = pow2 a * pow2 b"
  by (simp add: pow2_def powr_add)

lemma pow2_nat: "pow2 (int n) = 2 ^ n"
  by (simp add: pow2_def powr_realpow)

lemma pow2_neg_nat: "pow2 (- int n) = 1 / 2 ^ n"
  by (simp add: pow2_def powr_minus powr_realpow divide_inverse)

lemma pow2_0 [simp]: "pow2 0 = 1"
  by (simp add: pow2_def)

lemma pow2_numeral [simp]: "pow2 (numeral n) = 2 ^ numeral n"
  using pow2_nat[of "numeral n"] by simp

lemma pow2_neg_numeral [simp]: "pow2 (- numeral n) = 1 / 2 ^ numeral n"
  using pow2_neg_nat[of "numeral n"] by simp

lemma pow2_1 [simp]: "pow2 1 = 2"
  using pow2_nat[of 1] by simp

lemma pow2_neg_1 [simp]: "pow2 (- 1) = 1 / 2"
  using pow2_neg_nat[of 1] by simp

lemma pow2_mono: "a \<le> b \<Longrightarrow> pow2 a \<le> pow2 b"
  by (simp add: pow2_def)

lemma pow2_less: "a < b \<Longrightarrow> pow2 a < pow2 b"
  by (simp add: pow2_def)

lemma roundTiesToEven_near: "\<bar>real_of_int (roundTiesToEven y) - y\<bar> \<le> 1 / 2"
  unfolding roundTiesToEven_def Let_def by (auto; linarith)

lemma roundTiesToEven_int [simp]: "roundTiesToEven (real_of_int k) = k"
  by (simp add: roundTiesToEven_def)

lemma roundTiesToEven_ge:
  assumes "real_of_int k \<le> y"
  shows "k \<le> roundTiesToEven y"
proof -
  have "k \<le> \<lfloor>y\<rfloor>" using assms by (simp add: le_floor_iff)
  then show ?thesis unfolding roundTiesToEven_def Let_def by auto
qed

lemma roundTiesToEven_le:
  assumes "y \<le> real_of_int k"
  shows "roundTiesToEven y \<le> k"
proof (cases "y = real_of_int k")
  case True
  then show ?thesis by simp
next
  case False
  then have "y < real_of_int k" using assms by simp
  then have "\<lfloor>y\<rfloor> < k" by (simp add: floor_less_iff)
  then show ?thesis unfolding roundTiesToEven_def Let_def by auto
qed

lemma exponent_ge: "- 1022 \<le> exponent x"
  by (simp add: exponent_def)

lemma exponent_eq:
  assumes "pow2 e \<le> \<bar>x\<bar>" and "\<bar>x\<bar> < pow2 (e + 1)" and "- 1022 \<le> e"
  shows "exponent x = e"
proof -
  have "0 < pow2 e" by (rule pow2_pos)
  then have pos: "0 < \<bar>x\<bar>" using assms(1) by linarith
  have "\<lfloor>log 2 \<bar>x\<bar>\<rfloor> = e"
    using assms(1,2) pos by (subst floor_log_eq_powr_iff) (simp_all add: pow2_def)
  then show ?thesis using assms(3) by (simp add: exponent_def)
qed

lemma exponent_upper:
  assumes "x \<noteq> 0"
  shows "\<bar>x\<bar> < pow2 (exponent x + 1)"
proof -
  have pos: "0 < \<bar>x\<bar>" using assms by simp
  have "\<bar>x\<bar> < 2 powr (real_of_int \<lfloor>log 2 \<bar>x\<bar>\<rfloor> + 1)"
    using floor_log_eq_powr_iff[of "\<bar>x\<bar>" 2 "\<lfloor>log 2 \<bar>x\<bar>\<rfloor>"] pos by simp
  also have "\<dots> = pow2 (\<lfloor>log 2 \<bar>x\<bar>\<rfloor> + 1)" by (simp add: pow2_def)
  also have "\<dots> \<le> pow2 (exponent x + 1)" by (rule pow2_mono) (simp add: exponent_def)
  finally show ?thesis .
qed

lemma exponent_le:
  assumes "\<bar>x\<bar> < pow2 E" and "- 1021 \<le> E" and "x \<noteq> 0"
  shows "exponent x \<le> E - 1"
proof -
  have pos: "0 < \<bar>x\<bar>" using assms(3) by simp
  have "2 powr real_of_int \<lfloor>log 2 \<bar>x\<bar>\<rfloor> \<le> \<bar>x\<bar>"
    using floor_log_eq_powr_iff[of "\<bar>x\<bar>" 2 "\<lfloor>log 2 \<bar>x\<bar>\<rfloor>"] pos by simp
  then have "2 powr real_of_int \<lfloor>log 2 \<bar>x\<bar>\<rfloor> < 2 powr real_of_int E"
    using assms(1) unfolding pow2_def by linarith
  then have "real_of_int \<lfloor>log 2 \<bar>x\<bar>\<rfloor> < real_of_int E"
    using powr_less_cancel_iff[of 2 "real_of_int \<lfloor>log 2 \<bar>x\<bar>\<rfloor>" "real_of_int E"] by simp
  then have "\<lfloor>log 2 \<bar>x\<bar>\<rfloor> < E" by simp
  then show ?thesis using assms(2) by (simp add: exponent_def)
qed

lemma exponent_lower:
  assumes "pow2 (- 1022) \<le> \<bar>x\<bar>"
  shows "pow2 (exponent x) \<le> \<bar>x\<bar>"
proof -
  have "0 < pow2 (- 1022)" by (rule pow2_pos)
  then have pos: "0 < \<bar>x\<bar>" using assms by linarith
  have a: "2 powr real_of_int \<lfloor>log 2 \<bar>x\<bar>\<rfloor> \<le> \<bar>x\<bar>"
    using floor_log_eq_powr_iff[of "\<bar>x\<bar>" 2 "\<lfloor>log 2 \<bar>x\<bar>\<rfloor>"] pos by simp
  show ?thesis
  proof (cases "- 1022 \<le> \<lfloor>log 2 \<bar>x\<bar>\<rfloor>")
    case True
    then have "exponent x = \<lfloor>log 2 \<bar>x\<bar>\<rfloor>" by (simp add: exponent_def)
    then show ?thesis using a by (simp add: pow2_def)
  next
    case False
    then have "exponent x = - 1022" by (simp add: exponent_def)
    then show ?thesis using assms by simp
  qed
qed


lemma ulp_pos [simp]: "0 < ulp x"
  by (simp add: ulp_def)

lemma ulp_nonneg [simp]: "0 \<le> ulp x"
  by (simp add: ulp_def)

lemma ulp_neq0 [simp]: "ulp x \<noteq> 0"
  by (simp add: ulp_def)

lemma fl_0 [simp]: "fl 0 = 0"
  by (simp add: fl_def)

lemma fl_at:
  assumes "pow2 e \<le> \<bar>x\<bar>" and "\<bar>x\<bar> < pow2 (e + 1)" and "- 1022 \<le> e"
  shows "fl x = real_of_int (roundTiesToEven (x / pow2 (e - 52))) * pow2 (e - 52)"
proof -
  have "x \<noteq> 0"
  proof
    assume "x = 0"
    then have "pow2 e \<le> 0" using assms(1) by simp
    then show False using pow2_pos[of e] by linarith
  qed
  then show ?thesis using exponent_eq[OF assms] by (simp add: fl_def ulp_def)
qed

lemma fl_error: "\<bar>fl x - x\<bar> \<le> ulp x / 2"
proof (cases "x = 0")
  case True
  then show ?thesis using ulp_pos[of x] by simp
next
  case False
  let ?u = "ulp x"
  have "\<bar>real_of_int (roundTiesToEven (x / ?u)) - x / ?u\<bar> \<le> 1 / 2"
    by (rule roundTiesToEven_near)
  then have "\<bar>real_of_int (roundTiesToEven (x / ?u)) - x / ?u\<bar> * ?u \<le> 1 / 2 * ?u"
    by (intro mult_right_mono) simp_all
  moreover have "\<bar>real_of_int (roundTiesToEven (x / ?u)) - x / ?u\<bar> * ?u
      = \<bar>real_of_int (roundTiesToEven (x / ?u)) * ?u - x\<bar>"
  proof -
    have "\<bar>real_of_int (roundTiesToEven (x / ?u)) - x / ?u\<bar> * ?u
        = \<bar>(real_of_int (roundTiesToEven (x / ?u)) - x / ?u) * ?u\<bar>"
      by (simp add: abs_mult)
    also have "(real_of_int (roundTiesToEven (x / ?u)) - x / ?u) * ?u
        = real_of_int (roundTiesToEven (x / ?u)) * ?u - x"
      using ulp_pos[of x] by (simp add: field_simps)
    finally show ?thesis .
  qed
  ultimately show ?thesis using False by (simp add: fl_def)
qed

lemma fl_error_below:
  assumes "\<bar>x\<bar> < pow2 E" and "- 1021 \<le> E"
  shows "\<bar>fl x - x\<bar> \<le> pow2 (E - 54)"
proof (cases "x = 0")
  case True
  then show ?thesis using pow2_pos[of "E - 54"] by simp
next
  case False
  have "exponent x - 52 \<le> E - 53" using exponent_le[OF assms False] by simp
  then have "ulp x \<le> pow2 (E - 53)" unfolding ulp_def by (rule pow2_mono)
  moreover have "pow2 (E - 53) = 2 * pow2 (E - 54)"
    using pow2_add[of 1 "E - 54"] by simp
  ultimately show ?thesis using fl_error[of x] by linarith
qed

lemma fl_error_rel:
  assumes "pow2 (- 1022) \<le> \<bar>x\<bar>"
  shows "\<bar>fl x - x\<bar> \<le> \<bar>x\<bar> / 2 ^ 53"
proof -
  have "ulp x = pow2 (exponent x) * pow2 (- 52)"
    unfolding ulp_def using pow2_add[of "exponent x" "- 52"] by simp
  also have "\<dots> \<le> \<bar>x\<bar> * pow2 (- 52)"
    using exponent_lower[OF assms] by (intro mult_right_mono) simp_all
  finally have "ulp x / 2 \<le> \<bar>x\<bar> * pow2 (- 52) / 2" by simp
  also have "\<dots> = \<bar>x\<bar> / 2 ^ 53" by simp
  finally show ?thesis using fl_error[of x] by linarith
qed

text \<open>A multiple of the unit in the last place is not crossed by rounding.\<close>

lemma fl_ge_multiple:
  assumes "a = real_of_int k * ulp x" and "a \<le> x"
  shows "a \<le> fl x"
proof (cases "x = 0")
  case True
  then show ?thesis using assms by simp
next
  case False
  have "real_of_int k \<le> x / ulp x"
    using assms ulp_pos[of x] by (simp add: field_simps)
  then have "k \<le> roundTiesToEven (x / ulp x)" by (rule roundTiesToEven_ge)
  then have "real_of_int k * ulp x \<le> real_of_int (roundTiesToEven (x / ulp x)) * ulp x"
    by (intro mult_right_mono) simp_all
  then show ?thesis using False assms(1) by (simp add: fl_def)
qed

lemma fl_le_multiple:
  assumes "a = real_of_int k * ulp x" and "x \<le> a"
  shows "fl x \<le> a"
proof (cases "x = 0")
  case True
  then show ?thesis using assms by simp
next
  case False
  have "x / ulp x \<le> real_of_int k"
    using assms ulp_pos[of x] by (simp add: field_simps)
  then have "roundTiesToEven (x / ulp x) \<le> k" by (rule roundTiesToEven_le)
  then have "real_of_int (roundTiesToEven (x / ulp x)) * ulp x \<le> real_of_int k * ulp x"
    by (intro mult_right_mono) simp_all
  then show ?thesis using False assms(1) by (simp add: fl_def)
qed

lemma fl_nonneg:
  assumes "0 \<le> x"
  shows "0 \<le> fl x"
  using fl_ge_multiple[of 0 0 x] assms by simp

lemma fl_nonpos:
  assumes "x \<le> 0"
  shows "fl x \<le> 0"
  using fl_le_multiple[of 0 0 x] assms by simp

text \<open>Integers below \<open>2^53\<close> in size are multiples of the unit in the last place of \<open>x\<close>.\<close>

lemma int_multiple_ulp:
  assumes "\<bar>x\<bar> < 2 ^ 53" and "x \<noteq> 0"
  shows "\<exists>k. real_of_int n = real_of_int k * ulp x"
proof -
  have "\<bar>x\<bar> < pow2 53" using assms(1) by simp
  then have "exponent x \<le> 52" using exponent_le[of x 53] assms(2) by simp
  then have "exponent x - 52 \<le> 0" by simp
  then have "exponent x - 52 = - int (nat (- (exponent x - 52)))" by simp
  then obtain j where j: "exponent x - 52 = - int j" by blast
  have "ulp x = 1 / 2 ^ j" unfolding ulp_def j by (rule pow2_neg_nat)
  then have "real_of_int n = real_of_int (n * 2 ^ j) * ulp x" by simp
  then show ?thesis by blast
qed

lemma fl_ge_int:
  assumes "\<bar>x\<bar> < 2 ^ 53" and "real_of_int n \<le> x"
  shows "real_of_int n \<le> fl x"
proof (cases "x = 0")
  case True
  then show ?thesis using assms(2) by simp
next
  case False
  obtain k where "real_of_int n = real_of_int k * ulp x"
    using int_multiple_ulp[OF assms(1) False] by blast
  then show ?thesis using assms(2) by (rule fl_ge_multiple)
qed

lemma fl_le_int:
  assumes "\<bar>x\<bar> < 2 ^ 53" and "x \<le> real_of_int n"
  shows "fl x \<le> real_of_int n"
proof (cases "x = 0")
  case True
  then show ?thesis using assms(2) by simp
next
  case False
  obtain k where "real_of_int n = real_of_int k * ulp x"
    using int_multiple_ulp[OF assms(1) False] by blast
  then show ?thesis using assms(2) by (rule fl_le_multiple)
qed

lemma fl_int:
  assumes "\<bar>real_of_int n\<bar> < 2 ^ 53"
  shows "fl (real_of_int n) = real_of_int n"
  using fl_ge_int[OF assms, of n] fl_le_int[OF assms, of n] by simp

lemma fl_nat:
  assumes "n < 2 ^ 53"
  shows "fl (real n) = real n"
proof -
  have "\<bar>real_of_int (int n)\<bar> < 2 ^ 53" using assms by simp
  then have "fl (real_of_int (int n)) = real_of_int (int n)" by (rule fl_int)
  then show ?thesis by simp
qed


lemma fl_dyadic:
  assumes "\<bar>real_of_int m\<bar> < 2 ^ 53" and "j \<le> 1074"
  shows "fl (real_of_int m / 2 ^ j) = real_of_int m / 2 ^ j"
proof (cases "m = 0")
  case True
  then show ?thesis by simp
next
  case False
  let ?x = "real_of_int m / 2 ^ j"
  have x0: "?x \<noteq> 0" using False by simp
  have "\<bar>?x\<bar> = \<bar>real_of_int m\<bar> / 2 ^ j" by simp
  also have "\<dots> < 2 ^ 53 / 2 ^ j" using assms(1) by (intro divide_strict_right_mono) simp_all
  also have "\<dots> = pow2 53 * pow2 (- int j)" by (simp add: pow2_neg_nat)
  also have "\<dots> = pow2 (53 - int j)" using pow2_add[of 53 "- int j"] by simp
  finally have "\<bar>?x\<bar> < pow2 (53 - int j)" .
  then have "exponent ?x \<le> 53 - int j - 1" using assms(2) x0 by (intro exponent_le) simp_all
  then have "exponent ?x - 52 \<le> - int j" by simp
  then have "exponent ?x - 52 = - int (j + nat (- (exponent ?x - 52) - int j))" by simp
  then obtain t where t: "exponent ?x - 52 = - int (j + t)" by blast
  have u: "ulp ?x = 1 / 2 ^ (j + t)" unfolding ulp_def t by (rule pow2_neg_nat)
  have "?x = real_of_int (m * 2 ^ t) * ulp ?x" unfolding u by (simp add: power_add)
  then show ?thesis
    using fl_ge_multiple[of ?x "m * 2 ^ t" ?x] fl_le_multiple[of ?x "m * 2 ^ t" ?x] by simp
qed

subsection \<open>Facts about dimensions\<close>

lemma setDimension_small:
  assumes "0 \<le> x" and "x < 2147483648"
  shows "setDimension d x = nat \<lfloor>x\<rfloor>"
proof -
  have lo: "0 \<le> \<lfloor>x\<rfloor>" using assms(1) by simp
  have hi: "\<lfloor>x\<rfloor> < 2147483648" using assms(2) by (simp add: floor_less_iff)
  have "\<lfloor>x\<rfloor> mod 2 ^ 32 = \<lfloor>x\<rfloor>" using lo hi by simp
  then have "toUnsignedLong x = nat \<lfloor>x\<rfloor>"
    using assms(1) by (simp add: toUnsignedLong_def IntegerPart_def)
  moreover have "nat \<lfloor>x\<rfloor> \<le> 2147483647" using hi by linarith
  ultimately show ?thesis by (simp add: setDimension_def)
qed

lemma setDimension_nat:
  assumes "n \<le> 2500"
  shows "setDimension d (real n) = n"
  using assms by (simp add: setDimension_small)

lemma setDimension_int:
  assumes "0 \<le> k" and "k \<le> 2500"
  shows "setDimension d (real_of_int k) = nat k"
proof -
  have "setDimension d (real_of_int k) = nat \<lfloor>real_of_int k\<rfloor>"
    by (rule setDimension_small) (use assms in simp_all)
  then show ?thesis by simp
qed

lemma unat32_less: "real (unat (w :: 32 word)) < 2 ^ 32"
proof -
  have "unat w < 2 ^ 32" using unsigned_less[of w, where 'a = nat] by simp
  then have "real (unat w) < real (2 ^ 32)" by (simp only: of_nat_less_iff)
  then show ?thesis by (simp del: of_nat_unat)
qed

text \<open>The quotient \<open>2500 / w\<close> as a double, for a positive dimension.\<close>

lemma ddiv_ratio:
  assumes "0 < w" and "w < 2 ^ 32"
  shows "0 \<le> ddiv 2500 w"
    and "ddiv 2500 w \<le> 2500 / w * (1 + 1 / 2 ^ 53)"
    and "2500 / w * (1 - 1 / 2 ^ 53) \<le> ddiv 2500 w"
proof -
  have q: "0 < 2500 / w" using assms(1) by simp
  show "0 \<le> ddiv 2500 w" unfolding ddiv_def using q by (intro fl_nonneg) simp
  have "2500 / 2 ^ 32 < 2500 / w" using assms by (simp add: field_simps)
  moreover have "pow2 (- 21) \<le> (2500 :: real) / 2 ^ 32" by simp
  moreover have "pow2 (- 1022) \<le> pow2 (- 21)" by (rule pow2_mono) simp
  ultimately have "pow2 (- 1022) \<le> \<bar>2500 / w\<bar>" using q by linarith
  then have e: "\<bar>fl (2500 / w) - 2500 / w\<bar> \<le> \<bar>2500 / w\<bar> / 2 ^ 53" by (rule fl_error_rel)
  have a: "\<bar>2500 / w\<bar> = 2500 / w" using q by simp
  show "ddiv 2500 w \<le> 2500 / w * (1 + 1 / 2 ^ 53)"
    unfolding ddiv_def using e unfolding a by (simp add: field_simps abs_le_iff)
  show "2500 / w * (1 - 1 / 2 ^ 53) \<le> ddiv 2500 w"
    unfolding ddiv_def using e unfolding a by (simp add: field_simps abs_le_iff)
qed

text \<open>A product that is at most \<open>2500\<close> up to one rounding rounds to at most \<open>2500\<close>.\<close>

lemma fl_small_error:
  assumes "\<bar>x\<bar> < 4096"
  shows "\<bar>fl x - x\<bar> \<le> 1 / 2 ^ 42"
proof -
  have "\<bar>x\<bar> < pow2 12" using assms by simp
  then have "\<bar>fl x - x\<bar> \<le> pow2 (12 - 54)" by (rule fl_error_below) simp
  then show ?thesis by simp
qed

lemma round_dmul_range:
  assumes "0 \<le> a * b" and "a * b \<le> 2500 * (1 + 1 / 2 ^ 53)"
  shows "0 \<le> round (dmul a b)" and "round (dmul a b) \<le> 2500"
proof -
  have nn: "0 \<le> dmul a b" unfolding dmul_def using assms(1) by (rule fl_nonneg)
  have "\<bar>a * b\<bar> < 4096" using assms by simp
  then have "\<bar>fl (a * b) - a * b\<bar> \<le> 1 / 2 ^ 42" by (rule fl_small_error)
  then have "dmul a b \<le> 2500 * (1 + 1 / 2 ^ 53) + 1 / 2 ^ 42"
    unfolding dmul_def using assms(2) by linarith
  then have up: "dmul a b < 2501 - 1 / 2" by simp
  show "0 \<le> round (dmul a b)" using nn round_mono[of 0 "dmul a b"] by simp
  have "\<lfloor>dmul a b + 1 / 2\<rfloor> < 2501" using up by (simp add: floor_less_iff)
  then show "round (dmul a b) \<le> 2500" by (simp add: round_def)
qed

lemma scaleFactor_bounds:
  assumes "0 \<le> w" and "w < 2 ^ 32" and "0 \<le> h" and "h < 2 ^ 32"
    and "2500 < w \<or> 2500 < h"
  shows "0 \<le> scaleFactor w h"
    and "w * scaleFactor w h \<le> 2500 * (1 + 1 / 2 ^ 53)"
    and "h * scaleFactor w h \<le> 2500 * (1 + 1 / 2 ^ 53)"
proof -
  consider (w0) "w = 0" "0 < h" | (h0) "h = 0" "0 < w" | (pos) "0 < w" "0 < h"
    using assms by fastforce
  then have "0 \<le> scaleFactor w h \<and> w * scaleFactor w h \<le> 2500 * (1 + 1 / 2 ^ 53)
      \<and> h * scaleFactor w h \<le> 2500 * (1 + 1 / 2 ^ 53)"
  proof cases
    case w0
    have s: "scaleFactor w h = ddiv 2500 h" using w0 by (simp add: scaleFactor_def MAX_HEIGHT_def)
    have "h * ddiv 2500 h \<le> h * (2500 / h * (1 + 1 / 2 ^ 53))"
      using ddiv_ratio(2)[of h] w0 assms(4) by (intro mult_left_mono) simp_all
    then have "h * ddiv 2500 h \<le> 2500 * (1 + 1 / 2 ^ 53)" using w0 by simp
    then show ?thesis using s w0 ddiv_ratio(1)[of h] assms(4) by simp
  next
    case h0
    have s: "scaleFactor w h = ddiv 2500 w" using h0 by (simp add: scaleFactor_def MAX_WIDTH_def)
    have "w * ddiv 2500 w \<le> w * (2500 / w * (1 + 1 / 2 ^ 53))"
      using ddiv_ratio(2)[of w] h0 assms(2) by (intro mult_left_mono) simp_all
    then have "w * ddiv 2500 w \<le> 2500 * (1 + 1 / 2 ^ 53)" using h0 by simp
    then show ?thesis using s h0 ddiv_ratio(1)[of w] assms(2) by simp
  next
    case pos
    have s: "scaleFactor w h = min (ddiv 2500 w) (ddiv 2500 h)"
      using pos by (simp add: scaleFactor_def MAX_WIDTH_def MAX_HEIGHT_def)
    have a: "w * ddiv 2500 w \<le> w * (2500 / w * (1 + 1 / 2 ^ 53))"
      using ddiv_ratio(2)[of w] pos assms(2) by (intro mult_left_mono) simp_all
    have b: "h * ddiv 2500 h \<le> h * (2500 / h * (1 + 1 / 2 ^ 53))"
      using ddiv_ratio(2)[of h] pos assms(4) by (intro mult_left_mono) simp_all
    have a': "w * ddiv 2500 w \<le> 2500 * (1 + 1 / 2 ^ 53)" using a pos by simp
    have b': "h * ddiv 2500 h \<le> 2500 * (1 + 1 / 2 ^ 53)" using b pos by simp
    have "w * min (ddiv 2500 w) (ddiv 2500 h) \<le> w * ddiv 2500 w"
      using pos by (intro mult_left_mono) simp_all
    moreover have "h * min (ddiv 2500 w) (ddiv 2500 h) \<le> h * ddiv 2500 h"
      using pos by (intro mult_left_mono) simp_all
    moreover have "0 \<le> min (ddiv 2500 w) (ddiv 2500 h)"
      using ddiv_ratio(1)[of w] ddiv_ratio(1)[of h] pos assms(2,4) by simp
    ultimately show ?thesis using s a' b' by simp
  qed
  then show "0 \<le> scaleFactor w h"
    and "w * scaleFactor w h \<le> 2500 * (1 + 1 / 2 ^ 53)"
    and "h * scaleFactor w h \<le> 2500 * (1 + 1 / 2 ^ 53)" by simp_all
qed

lemma resizeImage_small:
  assumes "unat w \<le> 2500" and "unat h \<le> 2500"
  shows "resizeImage True (w, h) = \<lparr>width = unat w, height = unat h\<rparr>"
  using assms
  by (simp add: resizeImage_def createCanvas_def setWidth_def setHeight_def MAX_WIDTH_def
      MAX_HEIGHT_def Let_def setDimension_nat del: of_nat_unat)

lemma resizeImage_large:
  assumes "2500 < unat w \<or> 2500 < unat h"
  defines "s \<equiv> scaleFactor (real (unat w)) (real (unat h))"
  shows "resizeImage True (w, h) =
           \<lparr>width = nat (round (dmul (real (unat w)) s)),
            height = nat (round (dmul (real (unat h)) s))\<rparr>"
    and "nat (round (dmul (real (unat w)) s)) \<le> 2500"
    and "nat (round (dmul (real (unat h)) s)) \<le> 2500"
    and "0 \<le> round (dmul (real (unat w)) s)"
    and "0 \<le> round (dmul (real (unat h)) s)"
proof -
  have big: "2500 < real (unat w) \<or> 2500 < real (unat h)"
    using assms(1) by (simp del: of_nat_unat)
  have sb: "0 \<le> s" "real (unat w) * s \<le> 2500 * (1 + 1 / 2 ^ 53)"
    "real (unat h) * s \<le> 2500 * (1 + 1 / 2 ^ 53)"
    unfolding s_def
    using scaleFactor_bounds[of "real (unat w)" "real (unat h)"] unat32_less[of w]
      unat32_less[of h] big by (simp_all del: of_nat_unat)
  have w0: "0 \<le> real (unat w) * s" using sb(1) by (simp del: of_nat_unat)
  have h0: "0 \<le> real (unat h) * s" using sb(1) by (simp del: of_nat_unat)
  show rw: "0 \<le> round (dmul (real (unat w)) s)" using round_dmul_range(1)[OF w0 sb(2)] .
  show rh: "0 \<le> round (dmul (real (unat h)) s)" using round_dmul_range(1)[OF h0 sb(3)] .
  have rw': "round (dmul (real (unat w)) s) \<le> 2500" using round_dmul_range(2)[OF w0 sb(2)] .
  have rh': "round (dmul (real (unat h)) s) \<le> 2500" using round_dmul_range(2)[OF h0 sb(3)] .
  show "nat (round (dmul (real (unat w)) s)) \<le> 2500" using rw' by linarith
  show "nat (round (dmul (real (unat h)) s)) \<le> 2500" using rh' by linarith
  show "resizeImage True (w, h) =
           \<lparr>width = nat (round (dmul (real (unat w)) s)),
            height = nat (round (dmul (real (unat h)) s))\<rparr>"
    using big setDimension_int[OF rw rw'] setDimension_int[OF rh rh']
    by (simp add: resizeImage_def createCanvas_def setWidth_def setHeight_def MAX_WIDTH_def
        MAX_HEIGHT_def Let_def s_def del: of_nat_unat)
qed

lemma resizeImage_le:
  "width (resizeImage True img) \<le> 2500 \<and> height (resizeImage True img) \<le> 2500"
proof (cases img)
  case (Pair w h)
  show ?thesis
  proof (cases "unat w \<le> 2500 \<and> unat h \<le> 2500")
    case True
    then show ?thesis using resizeImage_small[of w h] Pair by simp
  next
    case False
    then have "2500 < unat w \<or> 2500 < unat h" by auto
    then show ?thesis
      using resizeImage_large(1)[of w h] resizeImage_large(2)[of w h]
        resizeImage_large(3)[of w h] Pair by simp
  qed
qed

text \<open>
  The factor the code computes is within a relative \<open>2^-53\<close> of the exact
  \<open>min (2500 / w) (2500 / h)\<close>, and a resized dimension within \<open>1/2 + 2^-40\<close> of the
  exactly scaled one.
\<close>

lemma min_ratio_close:
  fixes a b a' b' u :: real
  assumes "0 \<le> a" and "0 \<le> b" and "0 \<le> u" and "u \<le> 1"
    and "a' \<le> a * (1 + u)" and "a * (1 - u) \<le> a'"
    and "b' \<le> b * (1 + u)" and "b * (1 - u) \<le> b'"
  shows "\<bar>min a' b' - min a b\<bar> \<le> min a b * u"
proof -
  have up: "min a' b' \<le> min a b * (1 + u)"
  proof (cases "a \<le> b")
    case True
    then have "min a b = a" by simp
    moreover have "min a' b' \<le> a'" by simp
    ultimately show ?thesis using assms(5) by simp
  next
    case False
    then have "min a b = b" by simp
    moreover have "min a' b' \<le> b'" by simp
    ultimately show ?thesis using assms(7) by simp
  qed
  have la: "min a b * (1 - u) \<le> a * (1 - u)"
    using assms(4) by (intro mult_right_mono) simp_all
  have lb: "min a b * (1 - u) \<le> b * (1 - u)"
    using assms(4) by (intro mult_right_mono) simp_all
  have lo: "min a b * (1 - u) \<le> min a' b'"
    using la lb assms(6,8) by (simp add: min_def)
  have "min a' b' - min a b \<le> min a b * u" using up by (simp add: algebra_simps)
  moreover have "- (min a b * u) \<le> min a' b' - min a b" using lo by (simp add: algebra_simps)
  ultimately show ?thesis by (simp add: abs_le_iff)
qed

lemma scaleFactor_close:
  assumes "0 < w" and "w < 2 ^ 32" and "0 < h" and "h < 2 ^ 32"
  shows "scaleFactor w h = min (ddiv 2500 w) (ddiv 2500 h)"
    and "\<bar>scaleFactor w h - min (2500 / w) (2500 / h)\<bar> \<le> min (2500 / w) (2500 / h) / 2 ^ 53"
proof -
  show s: "scaleFactor w h = min (ddiv 2500 w) (ddiv 2500 h)"
    using assms by (simp add: scaleFactor_def MAX_WIDTH_def MAX_HEIGHT_def)
  have "\<bar>min (ddiv 2500 w) (ddiv 2500 h) - min (2500 / w) (2500 / h)\<bar>
      \<le> min (2500 / w) (2500 / h) * (1 / 2 ^ 53)"
    using ddiv_ratio(2,3)[of w] ddiv_ratio(2,3)[of h] assms
    by (intro min_ratio_close) simp_all
  then show "\<bar>scaleFactor w h - min (2500 / w) (2500 / h)\<bar>
      \<le> min (2500 / w) (2500 / h) / 2 ^ 53"
    using s by simp
qed

lemma scaled_close:
  assumes "0 < w" and "w < 2 ^ 32" and "0 < h" and "h < 2 ^ 32" and "2500 < w \<or> 2500 < h"
    and "d = w \<or> d = h"
  shows "\<bar>real_of_int (round (dmul d (scaleFactor w h))) - d * min (2500 / w) (2500 / h)\<bar>
           \<le> 1 / 2 + 1 / 2 ^ 40"
proof -
  define s where "s = scaleFactor w h"
  define m where "m = min (2500 / w) (2500 / h)"
  have d0: "0 < d" using assms by auto
  have m0: "0 \<le> m" unfolding m_def using assms by simp
  have "d * m \<le> d * (2500 / d)"
    unfolding m_def using assms(6) d0 by (intro mult_left_mono) auto
  then have dm: "d * m \<le> 2500" using d0 by simp
  have sm: "\<bar>s - m\<bar> \<le> m / 2 ^ 53"
    unfolding s_def m_def using scaleFactor_close(2)[OF assms(1-4)] .
  have "\<bar>d * s - d * m\<bar> = d * \<bar>s - m\<bar>"
    using d0 by (simp add: abs_mult flip: right_diff_distrib)
  also have "\<dots> \<le> d * (m / 2 ^ 53)" using sm d0 by (intro mult_left_mono) simp_all
  also have "\<dots> = d * m / 2 ^ 53" by simp
  also have "\<dots> \<le> 2500 / 2 ^ 53" using dm by (intro divide_right_mono) simp_all
  finally have e1: "\<bar>d * s - d * m\<bar> \<le> 2500 / 2 ^ 53" .
  have "0 \<le> d * m" using d0 m0 by simp
  moreover have "(2500 :: real) / 2 ^ 53 \<le> 1" by simp
  ultimately have "\<bar>d * s\<bar> < 4096" using e1 dm by linarith
  then have e2: "\<bar>fl (d * s) - d * s\<bar> \<le> 1 / 2 ^ 42" by (rule fl_small_error)
  have e3: "\<bar>real_of_int (round (fl (d * s))) - fl (d * s)\<bar> \<le> 1 / 2"
    by (rule of_int_round_abs_le)
  have "\<bar>real_of_int (round (fl (d * s))) - d * m\<bar> \<le> 1 / 2 + 1 / 2 ^ 42 + 2500 / 2 ^ 53"
    using e1 e2 e3 by linarith
  moreover have "(1 :: real) / 2 + 1 / 2 ^ 42 + 2500 / 2 ^ 53 \<le> 1 / 2 + 1 / 2 ^ 40" by simp
  ultimately have "\<bar>real_of_int (round (fl (d * s))) - d * m\<bar> \<le> 1 / 2 + 1 / 2 ^ 40"
    by (rule order_trans)
  then show ?thesis unfolding dmul_def s_def m_def .
qed

subsection \<open>The output surface\<close>

text \<open>The double nearest to \<open>1.1\<close>; it exceeds \<open>1.1\<close> by \<open>0.4 * 2^-52\<close>.\<close>

lemma fl_11_10: "fl (11 / 10) = 4953959590107546 / 4503599627370496"
  using fl_at[of 0 "11 / 10"] by (simp add: roundTiesToEven_def)

text \<open>
  For a width of at most \<open>2500\<close> the rounded product \<open>n * 1.1\<close> does not cross an
  integer: it has the integer part of the exact product.
\<close>

lemma dmul_11_10_range:
  assumes "n \<le> 2500"
  shows "real_of_int \<lfloor>real n * (11 / 10)\<rfloor> \<le> dmul (real n) (fl (11 / 10))"
    and "dmul (real n) (fl (11 / 10)) < real_of_int \<lfloor>real n * (11 / 10)\<rfloor> + 1"
    and "dmul (real n) (fl (11 / 10)) \<le> real_of_int \<lfloor>real n * (11 / 10)\<rfloor> + 19 / 20"
proof -
  define q where "q = 11 * n div 10"
  define k where "k = 11 * n mod 10"
  define x where "x = real n * (4953959590107546 / 4503599627370496)"
  have "11 * n = 10 * q + k" unfolding q_def k_def by simp
  then have "real (11 * n) = real (10 * q + k)" by simp
  then have dec: "real n * (11 / 10) = real q + real k / 10" by simp
  have k9: "k \<le> 9" unfolding k_def by simp
  then have rk: "real k \<le> 9" by simp
  have fq: "\<lfloor>real n * (11 / 10)\<rfloor> = int q"
    unfolding dec using rk by (intro floor_unique) simp_all
  have rn: "real n \<le> 2500" using assms by simp
  have "x - real n * (11 / 10) = real n * (1 / 11258999068426240)"
    unfolding x_def by (simp add: algebra_simps)
  moreover have "real n * (1 / 11258999068426240) \<le> 2500 * (1 / 11258999068426240)"
    using rn by (intro mult_right_mono) simp_all
  moreover have "0 \<le> real n * (1 / 11258999068426240)" by simp
  ultimately have xl: "real n * (11 / 10) \<le> x" and xu: "x \<le> real n * (11 / 10) + 1 / 2 ^ 42"
    by simp_all
  have x0: "0 \<le> x" unfolding x_def by simp
  have "x \<le> 2500 * (11 / 10) + 1 / 2 ^ 42" using xu rn by simp
  then have xs: "\<bar>x\<bar> < 4096" using x0 by simp
  have e: "\<bar>fl x - x\<bar> \<le> 1 / 2 ^ 42" using xs by (rule fl_small_error)
  have d: "dmul (real n) (fl (11 / 10)) = fl x" by (simp add: dmul_def fl_11_10 x_def)
  have tiny: "(1 :: real) / 2 ^ 42 \<le> 1 / 100" by simp
  have lo: "real q \<le> fl x"
  proof (cases "k = 0")
    case True
    then have "real k = 0" by simp
    then have "real q \<le> x" using xl dec by linarith
    then have "real_of_int (int q) \<le> x" by simp
    moreover have "\<bar>x\<bar> < 2 ^ 53" using xs by simp
    ultimately have "real_of_int (int q) \<le> fl x" by (intro fl_ge_int)
    then show ?thesis by simp
  next
    case False
    then have "1 \<le> real k" by simp
    then have "real q + 1 / 10 \<le> x" using xl dec by linarith
    then show ?thesis using e tiny by linarith
  qed
  have "x \<le> real q + 9 / 10 + 1 / 2 ^ 42" using xu dec rk by linarith
  then have up': "fl x \<le> real q + 19 / 20" using e tiny by linarith
  then have up: "fl x < real q + 1" by linarith
  show "real_of_int \<lfloor>real n * (11 / 10)\<rfloor> \<le> dmul (real n) (fl (11 / 10))"
    unfolding fq d using lo by simp
  show "dmul (real n) (fl (11 / 10)) < real_of_int \<lfloor>real n * (11 / 10)\<rfloor> + 1"
    unfolding fq d using up by simp
  show "dmul (real n) (fl (11 / 10)) \<le> real_of_int \<lfloor>real n * (11 / 10)\<rfloor> + 19 / 20"
    unfolding fq d using up' by simp
qed

lemma floor_dmul_11_10:
  assumes "n \<le> 2500"
  shows "\<lfloor>dmul (real n) (fl (11 / 10))\<rfloor> = \<lfloor>real n * (11 / 10)\<rfloor>"
  using dmul_11_10_range(1,2)[OF assms] by (intro floor_unique) simp_all

lemma dmul_5_4:
  assumes "n \<le> 2500"
  shows "dmul (real n) (5 / 4) = real n * (5 / 4)"
proof -
  have "\<bar>real_of_int (int (5 * n))\<bar> < 2 ^ 53" using assms by simp
  then have "fl (real_of_int (int (5 * n)) / 2 ^ 2) = real_of_int (int (5 * n)) / 2 ^ 2"
    by (rule fl_dyadic) simp
  moreover have "real_of_int (int (5 * n)) / 2 ^ 2 = real n * (5 / 4)" by simp
  ultimately show ?thesis unfolding dmul_def by (simp only:)
qed

lemma canvasWidth_range:
  assumes "n \<le> 2500"
  shows "0 \<le> dmul (real n) (fl (11 / 10))" and "dmul (real n) (fl (11 / 10)) < 2751"
proof -
  have f: "\<lfloor>real n * (11 / 10)\<rfloor> \<le> 2750"
  proof -
    have "real n * (11 / 10) \<le> 2750" using assms by simp
    then have "\<lfloor>real n * (11 / 10)\<rfloor> \<le> \<lfloor>2750 :: real\<rfloor>" by (rule floor_mono)
    then show ?thesis by simp
  qed
  have g: "0 \<le> \<lfloor>real n * (11 / 10)\<rfloor>" by simp
  show "0 \<le> dmul (real n) (fl (11 / 10))" using dmul_11_10_range(1)[OF assms] g by linarith
  show "dmul (real n) (fl (11 / 10)) < 2751" using dmul_11_10_range(2)[OF assms] f by linarith
qed





subsection \<open>Missing canvas or context\<close>

lemma processImage_previews:
  assumes "mainCtx e"
    and "width (resizeImage (resizeCtx e) img) \<noteq> 0"
    and "height (resizeImage (resizeCtx e) img) \<noteq> 0"
  shows "previews (processImage e img t (Some c)) = 1"
    and "thrown (processImage e img t (Some c)) = False"
  using assms by (simp_all add: processImage_def Let_def)

text \<open>A resized image with a zero dimension ends the run with the exception.\<close>

lemma processImage_thrown:
  assumes "mainCtx e"
    and "width (resizeImage (resizeCtx e) img) = 0 \<or> height (resizeImage (resizeCtx e) img) = 0"
  shows "previews (processImage e img t (Some c)) = 0"
    and "thrown (processImage e img t (Some c)) = True"
  using assms by (auto simp add: processImage_def Let_def)

text \<open>
  C8 (amended). Without an output canvas, or without a context for it, \<open>processImage\<close>
  returns at once: no call is issued, the canvas is untouched, nothing is raised and
  \<open>setPreview\<close> is not invoked. With both, and a resized image without a zero dimension,
  \<open>setPreview\<close> is invoked once, whether or not the contexts of the temporary, pattern
  and mask canvases are acquired.
\<close>

theorem processImage_abort:
  "(canvas = None \<or> \<not> mainCtx e \<longrightarrow>
      previews (processImage e img t canvas) = 0 \<and>
      calls (processImage e img t canvas) = [] \<and>
      surface (processImage e img t canvas) = canvas \<and>
      \<not> thrown (processImage e img t canvas)) \<and>
   (canvas \<noteq> None \<and> mainCtx e \<and>
    width (resizeImage (resizeCtx e) img) \<noteq> 0 \<and> height (resizeImage (resizeCtx e) img) \<noteq> 0 \<longrightarrow>
      previews (processImage e img t canvas) = 1)"
proof -
  have a: "previews (processImage e img t canvas) = 0 \<and>
      calls (processImage e img t canvas) = [] \<and>
      surface (processImage e img t canvas) = canvas \<and>
      \<not> thrown (processImage e img t canvas)"
    if "canvas = None \<or> \<not> mainCtx e"
    using that by (cases canvas) (auto simp: processImage_def)
  have b: "previews (processImage e img t canvas) = 1"
    if h: "canvas \<noteq> None \<and> mainCtx e \<and>
      width (resizeImage (resizeCtx e) img) \<noteq> 0 \<and> height (resizeImage (resizeCtx e) img) \<noteq> 0"
  proof -
    obtain c where "canvas = Some c" using h by auto
    then show ?thesis using h processImage_previews(1) by simp
  qed
  show ?thesis using a b by blast
qed

theorem processImage_abort_witness:
  "previews (processImage idealEnv (100, 100) [] None) = 0 \<and>
   previews (processImage (idealEnv\<lparr>resizeCtx := False, patternCtx := False, maskCtx := False\<rparr>)
      (100, 100) [] (Some createCanvas)) = 1"
  using processImage_abort[of None idealEnv "(100, 100)" "[]"]
    processImage_abort[of "Some createCanvas"
      "idealEnv\<lparr>resizeCtx := False, patternCtx := False, maskCtx := False\<rparr>" "(100, 100)" "[]"]
  by (simp add: idealEnv_def resizeImage_def createCanvas_def)

text \<open>
  C8 as stated fails: when the mask canvas yields no context, \<open>setPreview\<close> is invoked
  all the same.
\<close>

theorem processImage_inner_context_counterexample:
  "\<not> maskCtx (idealEnv\<lparr>maskCtx := False\<rparr>) \<and>
   previews (processImage (idealEnv\<lparr>maskCtx := False\<rparr>) (100, 100) [] (Some createCanvas)) = 1"
  by (simp add: processImage_previews idealEnv_def resizeImage_small)

subsection \<open>The resizer\<close>

text \<open>The doubles met when a 76 by 3040 image is resized.\<close>

lemma fl_625_19: "fl (625 / 19) = 578690330408421 / 17592186044416"
  using fl_at[of 5 "625 / 19"] by (simp add: roundTiesToEven_def)

lemma fl_125_152: "fl (125 / 152) = 7407236229227789 / 9007199254740992"
  using fl_at[of "- 1" "125 / 152"] by (simp add: roundTiesToEven_def)

lemma fl_resized_width:
  "fl (140737488355327991 / 2251799813685248) = 8796093022207999 / 140737488355328"
  using fl_at[of 5 "140737488355327991 / 2251799813685248"] by (simp add: roundTiesToEven_def)

lemma fl_resized_height: "fl (703687441776639955 / 281474976710656) = 2500"
  using fl_at[of 11 "703687441776639955 / 281474976710656"] by (simp add: roundTiesToEven_def)

text \<open>
  C2 (amended). When the temporary canvas yields its 2D context: an image of at most
  2500 by 2500 keeps its dimensions. Otherwise both dimensions are
  \<open>Math.round (dimension * s)\<close> for the one factor \<open>s\<close> that the code computes in double
  arithmetic, \<open>Math.min (2500 / width, 2500 / height)\<close> for positive dimensions; both are
  at most 2500, and each is within \<open>1/2 + 2^-40\<close> of the dimension scaled by the exact
  \<open>min (2500 / width) (2500 / height)\<close>, which is the aspect ratio kept within rounding.
\<close>

theorem resizeImage_contract:
  "let w = real (unat iw);
       h = real (unat ih);
       s = scaleFactor w h;
       r = resizeImage True (iw, ih)
   in (unat iw \<le> 2500 \<and> unat ih \<le> 2500 \<longrightarrow> r = \<lparr>width = unat iw, height = unat ih\<rparr>) \<and>
      (2500 < unat iw \<or> 2500 < unat ih \<longrightarrow>
         int (width r) = round (dmul w s) \<and>
         int (height r) = round (dmul h s) \<and>
         width r \<le> 2500 \<and> height r \<le> 2500 \<and>
         (0 < unat iw \<and> 0 < unat ih \<longrightarrow>
            s = min (ddiv 2500 w) (ddiv 2500 h) \<and>
            \<bar>real (width r) - w * min (2500 / w) (2500 / h)\<bar> \<le> 1 / 2 + 1 / 2 ^ 40 \<and>
            \<bar>real (height r) - h * min (2500 / w) (2500 / h)\<bar> \<le> 1 / 2 + 1 / 2 ^ 40))"
proof -
  define w where "w = real (unat iw)"
  define h where "h = real (unat ih)"
  define s where "s = scaleFactor w h"
  define r where "r = resizeImage True (iw, ih)"
  have small: "r = \<lparr>width = unat iw, height = unat ih\<rparr>"
    if "unat iw \<le> 2500 \<and> unat ih \<le> 2500"
    unfolding r_def using that by (simp add: resizeImage_small)
  have wl: "w < 2 ^ 32" unfolding w_def by (rule unat32_less)
  have hl: "h < 2 ^ 32" unfolding h_def by (rule unat32_less)
  have large: "int (width r) = round (dmul w s) \<and> int (height r) = round (dmul h s) \<and>
         width r \<le> 2500 \<and> height r \<le> 2500 \<and>
         (0 < unat iw \<and> 0 < unat ih \<longrightarrow>
            s = min (ddiv 2500 w) (ddiv 2500 h) \<and>
            \<bar>real (width r) - w * min (2500 / w) (2500 / h)\<bar> \<le> 1 / 2 + 1 / 2 ^ 40 \<and>
            \<bar>real (height r) - h * min (2500 / w) (2500 / h)\<bar> \<le> 1 / 2 + 1 / 2 ^ 40)"
    if big: "2500 < unat iw \<or> 2500 < unat ih"
  proof -
    note res = resizeImage_large[OF big, folded w_def h_def, folded s_def, folded r_def]
    have rw: "width r = nat (round (dmul w s))" and rh: "height r = nat (round (dmul h s))"
      using res(1) by simp_all
    have iw: "int (width r) = round (dmul w s)" using rw res(4) by simp
    have ih: "int (height r) = round (dmul h s)" using rh res(5) by simp
    have le: "width r \<le> 2500" "height r \<le> 2500" using rw rh res(2,3) by simp_all
    have close: "s = min (ddiv 2500 w) (ddiv 2500 h) \<and>
            \<bar>real (width r) - w * min (2500 / w) (2500 / h)\<bar> \<le> 1 / 2 + 1 / 2 ^ 40 \<and>
            \<bar>real (height r) - h * min (2500 / w) (2500 / h)\<bar> \<le> 1 / 2 + 1 / 2 ^ 40"
      if pos: "0 < unat iw \<and> 0 < unat ih"
    proof -
      have w0: "0 < w" and h0: "0 < h"
        unfolding w_def h_def using pos by (simp_all del: of_nat_unat)
      have big': "2500 < w \<or> 2500 < h"
        unfolding w_def h_def using big by (simp del: of_nat_unat)
      have a: "s = min (ddiv 2500 w) (ddiv 2500 h)"
        unfolding s_def using scaleFactor_close(1)[OF w0 wl h0 hl] .
      have "real (width r) = real_of_int (int (width r))" by simp
      then have b: "real (width r) = real_of_int (round (dmul w (scaleFactor w h)))"
        unfolding iw s_def .
      have "real (height r) = real_of_int (int (height r))" by simp
      then have c: "real (height r) = real_of_int (round (dmul h (scaleFactor w h)))"
        unfolding ih s_def .
      show ?thesis
        unfolding b c using a scaled_close[OF w0 wl h0 hl big', of w]
          scaled_close[OF w0 wl h0 hl big', of h] by simp
    qed
    show ?thesis using iw ih le close by blast
  qed
  show ?thesis
    unfolding Let_def using small large
    unfolding w_def h_def s_def r_def by blast
qed

theorem resizeImage_contract_witness:
  "resizeImage True (100, 100) = \<lparr>width = 100, height = 100\<rparr> \<and>
   resizeImage True (76, 3040) = \<lparr>width = 62, height = 2500\<rparr> \<and>
   scaleFactor 76 3040 = 7407236229227789 / 9007199254740992 \<and>
   dmul 76 (scaleFactor 76 3040) = 8796093022207999 / 140737488355328 \<and>
   \<bar>(62 :: real) - 76 * min (2500 / 76) (2500 / 3040)\<bar> \<le> 1 / 2 + 1 / 2 ^ 40"
  using resizeImage_contract[of 100 100] resizeImage_contract[of 76 3040]
  by (simp add: Let_def scaleFactor_def MAX_WIDTH_def MAX_HEIGHT_def ddiv_def dmul_def
      fl_625_19 fl_125_152 fl_resized_width fl_resized_height round_def)

text \<open>
  C2 as stated fails: when the temporary canvas yields no context, \<open>resizeImage\<close>
  returns the new canvas as it was created, 300 by 150, whatever the image.
\<close>

theorem resizeImage_no_context_counterexample:
  "unat (100 :: 32 word) \<le> 2500 \<and>
   resizeImage False (100, 100) = \<lparr>width = 300, height = 150\<rparr> \<and>
   resizeImage False (100, 100) \<noteq> \<lparr>width = 100, height = 100\<rparr>"
  by (simp add: resizeImage_def createCanvas_def)

subsection \<open>Word wrapping\<close>








subsection \<open>Splitting\<close>













subsection \<open>Wrapping good words\<close>








text \<open>
  The doubles of the examples: \<open>0.55\<close>, then \<open>14 * 0.55 = 7.700000000000001\<close> and its
  products with 4, 5, 8, 10 and 13; the one with 10 is \<open>77.00000000000001\<close>.
\<close>

lemma fl_11_20: "fl (11 / 20) = 2476979795053773 / 4503599627370496"
  using fl_at[of "- 1" "11 / 20"] by (simp add: roundTiesToEven_def)

lemma fl_charWidth_14:
  "fl (17338858565376411 / 2251799813685248) = 4334714641344103 / 562949953421312"
  using fl_at[of 2 "17338858565376411 / 2251799813685248"] by (simp add: roundTiesToEven_def)







subsection \<open>The grayscale masker\<close>

lemma unat_byte_le: "unat (w :: 8 word) \<le> 255"
  using unsigned_less[of w, where 'a = nat] by simp

lemma unat_byte_of_int:
  assumes "0 \<le> f" and "f \<le> 255"
  shows "unat (word_of_int f :: 8 word) = nat f"
proof -
  have "take_bit 8 f = f" using assms by (simp add: take_bit_int_eq_self)
  then show ?thesis by (simp add: unsigned_of_int)
qed

text \<open>
  Storing a byte's value again gives the byte, also when the value is off by less than
  one half, as a sum of rounded products can be.
\<close>

lemma ToUint8Clamp_robust:
  assumes "\<bar>e\<bar> < 1 / 2"
  shows "ToUint8Clamp (real (unat (w :: 8 word)) + e) = w"
proof -
  let ?n = "unat w"
  let ?x = "real ?n + e"
  have le: "?n \<le> 255" by (rule unat_byte_le)
  show ?thesis
  proof (cases "?x \<le> 0")
    case True
    then have "real ?n < 1 / 2" using assms by linarith
    then have "?n = 0" by linarith
    then have "w = 0" by (simp add: unat_eq_0)
    then show ?thesis using True by (simp add: ToUint8Clamp_def)
  next
    case pos: False
    show ?thesis
    proof (cases "255 \<le> ?x")
      case True
      then have "real ?n > 254" using assms by linarith
      then have "?n = 255" using le by linarith
      then have "unat w = unat (255 :: 8 word)" by simp
      then have "w = 255" by (simp only: word_unat_eq_iff)
      then show ?thesis using True pos by (simp add: ToUint8Clamp_def)
    next
      case False
      show ?thesis
      proof (cases "0 \<le> e")
        case True
        then have f: "\<lfloor>?x\<rfloor> = int ?n" using assms by (simp add: floor_unique)
        have "ToUint8Clamp ?x = word_of_int (int ?n)"
          using pos False True assms unfolding ToUint8Clamp_def Let_def f by simp
        then show ?thesis by simp
      next
        case neg: False
        then have f: "\<lfloor>?x\<rfloor> = int ?n - 1" using assms by (simp add: floor_unique)
        have "ToUint8Clamp ?x = word_of_int (int ?n - 1 + 1)"
          using pos False neg assms unfolding ToUint8Clamp_def Let_def f by simp
        then show ?thesis by simp
      qed
    qed
  qed
qed

lemma ToUint8Clamp_unat: "ToUint8Clamp (real (unat (w :: 8 word))) = w"
  using ToUint8Clamp_robust[of 0 w] by simp

lemma ToUint8Clamp_near:
  assumes "0 \<le> x" and "x \<le> 255"
  shows "\<bar>real (unat (ToUint8Clamp x)) - x\<bar> \<le> 1 / 2"
proof (cases "x = 0 \<or> x = 255")
  case True
  then show ?thesis by (auto simp: ToUint8Clamp_def)
next
  case False
  then have x: "0 < x" "x < 255" using assms by simp_all
  let ?f = "\<lfloor>x\<rfloor>"
  have f0: "0 \<le> ?f" using x by simp
  have f1: "?f \<le> 254" using x by (simp add: floor_le_iff)
  have fl: "real_of_int ?f \<le> x" "x < real_of_int ?f + 1" by linarith+
  have "unat (word_of_int ?f :: 8 word) = nat ?f"
    by (rule unat_byte_of_int) (use f0 f1 in linarith)+
  then have u0: "real (unat (word_of_int ?f :: 8 word)) = real_of_int ?f"
    using f0 by (simp only: of_nat_nat)
  have "0 \<le> ?f + 1" using f0 by linarith
  have "unat (word_of_int (?f + 1) :: 8 word) = nat (?f + 1)"
    by (rule unat_byte_of_int) (use f0 f1 in linarith)+
  then have "real (unat (word_of_int (?f + 1) :: 8 word)) = real_of_int (?f + 1)"
    using \<open>0 \<le> ?f + 1\<close> by (simp only: of_nat_nat)
  then have u1: "real (unat (word_of_int (?f + 1) :: 8 word)) = real_of_int ?f + 1"
    by (simp only: of_int_add of_int_1)
  consider "real_of_int ?f + 0.5 < x" | "x < real_of_int ?f + 0.5" | "x = real_of_int ?f + 0.5"
    by linarith
  then show ?thesis
  proof cases
    case 1
    then have "ToUint8Clamp x = word_of_int (?f + 1)" using x by (simp add: ToUint8Clamp_def)
    then have "real (unat (ToUint8Clamp x)) = real_of_int ?f + 1" using u1 by (simp only:)
    then show ?thesis using 1 fl by linarith
  next
    case 2
    then have "ToUint8Clamp x = word_of_int ?f" using x by (simp add: ToUint8Clamp_def)
    then have "real (unat (ToUint8Clamp x)) = real_of_int ?f" using u0 by (simp only:)
    then show ?thesis using 2 fl by linarith
  next
    case 3
    then have "ToUint8Clamp x = word_of_int ?f \<or> ToUint8Clamp x = word_of_int (?f + 1)"
      using x by (simp add: ToUint8Clamp_def Let_def)
    then show ?thesis
    proof
      assume "ToUint8Clamp x = word_of_int ?f"
      then have "real (unat (ToUint8Clamp x)) = real_of_int ?f" using u0 by (simp only:)
      then show ?thesis using 3 by linarith
    next
      assume "ToUint8Clamp x = word_of_int (?f + 1)"
      then have "real (unat (ToUint8Clamp x)) = real_of_int ?f + 1" using u1 by (simp only:)
      then show ?thesis using 3 by linarith
    qed
  qed
qed


text \<open>The conversion is within one half of any number between \<open>- 1/2\<close> and \<open>255.5\<close>.\<close>

lemma ToUint8Clamp_near_wide:
  assumes "- (1 / 2) \<le> x" and "x \<le> 255 + 1 / 2"
  shows "\<bar>real (unat (ToUint8Clamp x)) - x\<bar> \<le> 1 / 2"
proof -
  consider "x \<le> 0" | "255 \<le> x" | "0 \<le> x \<and> x \<le> 255" by linarith
  then show ?thesis
  proof cases
    case 1
    then show ?thesis using assms by (simp add: ToUint8Clamp_def)
  next
    case 2
    then have "ToUint8Clamp x = 255" by (simp add: ToUint8Clamp_def)
    then show ?thesis using 2 assms by simp
  next
    case 3
    then show ?thesis using ToUint8Clamp_near[of x] by simp
  qed
qed

text \<open>
  The luminosity in double arithmetic: three rounded constants, three rounded
  products and two rounded sums. For bytes it is within \<open>2^-43\<close> of the exact
  \<open>0.3 r + 0.59 g + 0.11 b\<close>.
\<close>

lemma fl_error_256:
  assumes "\<bar>x\<bar> < 256"
  shows "\<bar>fl x - x\<bar> \<le> 1 / 2 ^ 46"
proof -
  have "\<bar>x\<bar> < pow2 8" using assms by simp
  then have "\<bar>fl x - x\<bar> \<le> pow2 (8 - 54)" by (rule fl_error_below) simp
  then show ?thesis by simp
qed

lemma fl_error_1:
  assumes "\<bar>x\<bar> < 1"
  shows "\<bar>fl x - x\<bar> \<le> 1 / 2 ^ 54"
proof -
  have "\<bar>x\<bar> < pow2 0" using assms by simp
  then have "\<bar>fl x - x\<bar> \<le> pow2 (0 - 54)" by (rule fl_error_below) simp
  then show ?thesis by simp
qed

lemma weighted_byte_error:
  assumes "0 \<le> c" and "c < 1" and "0 \<le> v" and "v \<le> 255"
  shows "\<bar>dmul (fl c) v - c * v\<bar> \<le> 1 / 2 ^ 45"
proof -
  have "\<bar>fl c - c\<bar> \<le> 1 / 2 ^ 54" using assms(1,2) by (intro fl_error_1) simp
  then have "\<bar>fl c - c\<bar> * v \<le> 1 / 2 ^ 54 * 255"
    using assms(3,4) by (intro mult_mono) simp_all
  moreover have "\<bar>fl c * v - c * v\<bar> = \<bar>fl c - c\<bar> * v"
    using assms(3) by (simp add: abs_mult flip: left_diff_distrib)
  moreover have "(1 :: real) / 2 ^ 54 * 255 \<le> 1 / 2 ^ 46" by simp
  ultimately have e1: "\<bar>fl c * v - c * v\<bar> \<le> 1 / 2 ^ 46" by linarith
  have "c * v \<le> 1 * 255" using assms by (intro mult_mono) simp_all
  moreover have "0 \<le> c * v" using assms by simp
  moreover have "(1 :: real) / 2 ^ 46 \<le> 1 / 2" by simp
  ultimately have "\<bar>fl c * v\<bar> < 256" using e1 by linarith
  then have "\<bar>fl (fl c * v) - fl c * v\<bar> \<le> 1 / 2 ^ 46" by (rule fl_error_256)
  moreover have "(1 :: real) / 2 ^ 46 + 1 / 2 ^ 46 = 1 / 2 ^ 45" by simp
  ultimately show ?thesis unfolding dmul_def using e1 by linarith
qed

lemma luminosity_error:
  assumes "r \<le> 255" and "g \<le> 255" and "b \<le> 255"
  shows "\<bar>luminosity (real r) (real g) (real b)
           - (3 / 10 * real r + 59 / 100 * real g + 11 / 100 * real b)\<bar> \<le> 1 / 2 ^ 43"
proof -
  define p1 where "p1 = dmul (fl (3 / 10)) (real r)"
  define p2 where "p2 = dmul (fl (59 / 100)) (real g)"
  define p3 where "p3 = dmul (fl (11 / 100)) (real b)"
  have r: "0 \<le> real r" "real r \<le> 255" using assms by simp_all
  have g: "0 \<le> real g" "real g \<le> 255" using assms by simp_all
  have b: "0 \<le> real b" "real b \<le> 255" using assms by simp_all
  have e1: "\<bar>p1 - 3 / 10 * real r\<bar> \<le> 1 / 2 ^ 45"
    unfolding p1_def using r by (intro weighted_byte_error) simp_all
  have e2: "\<bar>p2 - 59 / 100 * real g\<bar> \<le> 1 / 2 ^ 45"
    unfolding p2_def using g by (intro weighted_byte_error) simp_all
  have e3: "\<bar>p3 - 11 / 100 * real b\<bar> \<le> 1 / 2 ^ 45"
    unfolding p3_def using b by (intro weighted_byte_error) simp_all
  have t: "(1 :: real) / 2 ^ 45 = 2 * (1 / 2 ^ 46)" "(1 :: real) / 2 ^ 43 = 8 * (1 / 2 ^ 46)"
    "(1 :: real) / 2 ^ 46 \<le> 1 / 100" "0 \<le> (1 :: real) / 2 ^ 46"
    by simp_all
  have "\<bar>p1 + p2\<bar> < 256" using e1 e2 r g t by linarith
  then have e4: "\<bar>fl (p1 + p2) - (p1 + p2)\<bar> \<le> 1 / 2 ^ 46" by (rule fl_error_256)
  have "\<bar>fl (p1 + p2) + p3\<bar> < 256" using e1 e2 e3 e4 r g b t by linarith
  then have e5: "\<bar>fl (fl (p1 + p2) + p3) - (fl (p1 + p2) + p3)\<bar> \<le> 1 / 2 ^ 46"
    by (rule fl_error_256)
  have "\<bar>fl (fl (p1 + p2) + p3)
           - (3 / 10 * real r + 59 / 100 * real g + 11 / 100 * real b)\<bar> \<le> 1 / 2 ^ 43"
    using e1 e2 e3 e4 e5 t by linarith
  then show ?thesis unfolding luminosity_def dadd_def p1_def p2_def p3_def by simp
qed

lemma luminosity_same:
  "\<bar>luminosity (real (unat (v :: 8 word))) (real (unat v)) (real (unat v)) - real (unat v)\<bar>
     \<le> 1 / 2 ^ 43"
  using luminosity_error[of "unat v" "unat v" "unat v"] unat_byte_le[of v]
  by (simp del: of_nat_unat)

text \<open>The stored byte is within one half of the exact luminosity.\<close>

lemma stored_luminosity_near:
  assumes "r \<le> 255" and "g \<le> 255" and "b \<le> 255"
  shows "\<bar>real (unat (ToUint8Clamp (luminosity (real r) (real g) (real b)))) 
           - (3 / 10 * real r + 59 / 100 * real g + 11 / 100 * real b)\<bar> \<le> 1 / 2"
proof -
  define lum where "lum = luminosity (real r) (real g) (real b)"
  define n where "n = unat (ToUint8Clamp lum)"
  define k where "k = 30 * r + 59 * g + 11 * b"
  have L: "3 / 10 * real r + 59 / 100 * real g + 11 / 100 * real b = real k / 100"
    unfolding k_def by simp
  have e: "\<bar>lum - real k / 100\<bar> \<le> 1 / 2 ^ 43"
    unfolding lum_def using luminosity_error[OF assms, unfolded L] .
  have t: "(1 :: real) / 2 ^ 43 \<le> 1 / 200" by simp
  have "real k \<le> 25500" unfolding k_def using assms by simp
  moreover have "0 \<le> real k" by simp
  ultimately have "- (1 / 2) \<le> lum" "lum \<le> 255 + 1 / 2" using e t by linarith+
  then have "\<bar>real n - lum\<bar> \<le> 1 / 2" unfolding n_def by (rule ToUint8Clamp_near_wide)
  then have "\<bar>real n - real k / 100\<bar> \<le> 1 / 2 + 1 / 200" using e t by linarith
  then have "\<bar>100 * real n - real k\<bar> < 51" by linarith
  then have "\<bar>real_of_int (100 * int n - int k)\<bar> < 51" by simp
  then have "\<bar>100 * int n - int k\<bar> < 51" by linarith
  then have "\<bar>100 * int n - int k\<bar> \<le> 50" by simp
  then have "real_of_int \<bar>100 * int n - int k\<bar> \<le> 50" by linarith
  then have "\<bar>100 * real n - real k\<bar> \<le> 50" by simp
  then have "\<bar>real n - real k / 100\<bar> \<le> 1 / 2" by linarith
  then show ?thesis unfolding n_def lum_def L .
qed

lemma maskLoop_length: "length (maskLoop i m d) = length d"
proof (induction i m d rule: maskLoop.induct)
  case (1 i m d)
  show ?case
  proof (cases "i < length d")
    case True
    then show ?thesis using 1 by (subst maskLoop.simps) (simp add: Let_def)
  next
    case False
    then show ?thesis by (subst maskLoop.simps) simp
  qed
qed

lemma grayAt_update_later:
  assumes "i + 4 \<le> q"
  shows "grayAt (d[i := a, i + 1 := b, i + 2 := c]) q = grayAt d q"
proof -
  have "readByte (d[i := a, i + 1 := b, i + 2 := c]) q = readByte d q"
    and "readByte (d[i := a, i + 1 := b, i + 2 := c]) (q + 1) = readByte d (q + 1)"
    and "readByte (d[i := a, i + 1 := b, i + 2 := c]) (q + 2) = readByte d (q + 2)"
    using assms by (simp_all add: readByte_def)
  then show ?thesis by (simp only: grayAt_def)
qed

lemma pixel_base:
  fixes i j :: nat
  assumes "4 dvd i"
  shows "i \<le> j \<Longrightarrow> j < i + 4 \<Longrightarrow> j - j mod 4 = i"
    and "i + 4 \<le> j \<Longrightarrow> i + 4 \<le> j - j mod 4"
    and "i \<le> j \<Longrightarrow> j < i + 4 \<Longrightarrow> j mod 4 = j - i"
proof -
  obtain k where k: "i = 4 * k" using assms by (auto elim: dvdE)
  define q where "q = j div 4"
  define r where "r = j mod 4"
  have j: "j = 4 * q + r" and r: "r < 4" by (simp_all add: q_def r_def)
  have e: "j - j mod 4 = 4 * q" using j r_def by simp
  have same: "q = k" if "i \<le> j" "j < i + 4"
  proof -
    have "k < q + 1" using that(1) j r k by linarith
    moreover have "q < k + 1" using that(2) j k by linarith
    ultimately show ?thesis by linarith
  qed
  show "j - j mod 4 = i" if "i \<le> j" "j < i + 4"
    unfolding e using same[OF that] k by simp
  show "i + 4 \<le> j - j mod 4" if "i + 4 \<le> j"
  proof -
    have "k < q" using that j r k by linarith
    then show ?thesis unfolding e using k by linarith
  qed
  show "j mod 4 = j - i" if "i \<le> j" "j < i + 4"
    unfolding r_def[symmetric] using same[OF that] j k by simp
qed

lemma maskLoop_nth:
  assumes "4 dvd i" and "j < length d"
  shows "maskLoop i m d ! j =
         (if i \<le> j \<and> j mod 4 \<noteq> 3 \<and> readByte m (j - j mod 4) = Some 0
          then storeByte (grayAt d (j - j mod 4)) else d ! j)"
  using assms
proof (induction i m d rule: maskLoop.induct)
  case (1 i m d)
  show ?case
  proof (cases "i < length d")
    case False
    then have "\<not> i \<le> j" using 1 by simp
    then show ?thesis using False by (subst maskLoop.simps) simp
  next
    case True
    let ?g = "storeByte (grayAt d i)"
    let ?d' = "if readByte m i = Some 0 then d[i := ?g, i + 1 := ?g, i + 2 := ?g] else d"
    have unf: "maskLoop i m d = maskLoop (i + 4) m ?d'"
      using True by (subst maskLoop.simps) (simp add: Let_def)
    have dvd: "4 dvd i + 4" using "1.prems"(1) by simp
    have len: "j < length ?d'" using "1.prems"(2) by simp
    have IH: "maskLoop (i + 4) m ?d' ! j =
         (if i + 4 \<le> j \<and> j mod 4 \<noteq> 3 \<and> readByte m (j - j mod 4) = Some 0
          then storeByte (grayAt ?d' (j - j mod 4)) else ?d' ! j)"
      by (rule "1.IH"[OF True dvd, unfolded Let_def, OF len])
    consider "j < i" | "i \<le> j" "j < i + 4" | "i + 4 \<le> j" by linarith
    then show ?thesis
    proof cases
      case 1
      have a: "\<not> i + 4 \<le> j" "\<not> i \<le> j" using 1 by simp_all
      have n: "?d' ! j = d ! j" using 1 by simp
      have "maskLoop i m d ! j = d ! j" unfolding unf IH using a(1) n by (simp only: simp_thms if_False)
      then show ?thesis using a(2) by (simp only: simp_thms if_False)
    next
      case 2
      have base: "j - j mod 4 = i" using pixel_base(1)[OF "1.prems"(1) 2] .
      have jj: "j = i \<or> j = i + 1 \<or> j = i + 2 \<or> j = i + 3" using 2 by linarith
      have "j mod 4 = j - i" using pixel_base(3)[OF "1.prems"(1) 2] .
      then have m3: "j mod 4 \<noteq> 3 \<longleftrightarrow> j \<noteq> i + 3" using 2 by (simp only:) linarith
      have upd: "d[i := ?g, i + 1 := ?g, i + 2 := ?g] ! j = (if j \<noteq> i + 3 then ?g else d ! j)"
        using jj "1.prems"(2) by (elim disjE) simp_all
      have n: "?d' ! j = (if j \<noteq> i + 3 \<and> readByte m i = Some 0 then ?g else d ! j)"
        using upd by simp
      have a: "\<not> i + 4 \<le> j" using 2 by simp
      have "maskLoop i m d ! j = ?d' ! j" unfolding unf IH using a by (simp only: simp_thms if_False)
      then show ?thesis unfolding n base m3 using 2(1) by (simp only: simp_thms)
    next
      case 3
      have q: "i + 4 \<le> j - j mod 4" using pixel_base(2)[OF "1.prems"(1) 3] .
      have g: "grayAt ?d' (j - j mod 4) = grayAt d (j - j mod 4)"
        using grayAt_update_later[OF q] by simp
      have n: "?d' ! j = d ! j" using 3 by simp
      have a: "i \<le> j" using 3 by simp
      have c: "i + 4 \<le> j \<and> j mod 4 \<noteq> 3 \<and> readByte m (j - j mod 4) = Some 0
               \<longleftrightarrow> i \<le> j \<and> j mod 4 \<noteq> 3 \<and> readByte m (j - j mod 4) = Some 0"
        using 3 a by (simp only: simp_thms)
      have "maskLoop i m d ! j = maskLoop (i + 4) m ?d' ! j" by (simp only: unf)
      also have "\<dots> = (if i + 4 \<le> j \<and> j mod 4 \<noteq> 3 \<and> readByte m (j - j mod 4) = Some 0
          then storeByte (grayAt ?d' (j - j mod 4)) else ?d' ! j)" by (rule IH)
      also have "\<dots> = (if i + 4 \<le> j \<and> j mod 4 \<noteq> 3 \<and> readByte m (j - j mod 4) = Some 0
          then storeByte (grayAt d (j - j mod 4)) else d ! j)" by (simp only: g n)
      also have "\<dots> = (if i \<le> j \<and> j mod 4 \<noteq> 3 \<and> readByte m (j - j mod 4) = Some 0
          then storeByte (grayAt d (j - j mod 4)) else d ! j)" by (simp only: c)
      finally show ?thesis .
    qed
  qed
qed

lemma maskLoop_pixel:
  assumes "4 * t + k < length d" and "k < 4"
  shows "maskLoop 0 m d ! (4 * t + k) =
         (if k \<noteq> 3 \<and> readByte m (4 * t) = Some 0
          then storeByte (grayAt d (4 * t)) else d ! (4 * t + k))"
proof -
  have md: "(4 * t + k) mod 4 = k" using assms(2) by simp
  have base: "4 * t + k - (4 * t + k) mod 4 = 4 * t" unfolding md by simp
  show ?thesis
    using maskLoop_nth[of 0 "4 * t + k" d m] assms(1) unfolding base md by simp
qed

lemma grayAt_full:
  assumes "i + 2 < length d"
  shows "grayAt d i =
         Some (luminosity (real (unat (d ! i))) (real (unat (d ! (i + 1))))
                 (real (unat (d ! (i + 2)))))"
  using assms by (simp add: grayAt_def readByte_def del: of_nat_unat)

lemma grayAt_short:
  assumes "length d \<le> i + 2"
  shows "grayAt d i = None"
  using assms by (simp add: grayAt_def readByte_def split: option.splits)


lemma storeByte_gray_pixel:
  "storeByte (Some (luminosity (real (unat g)) (real (unat g)) (real (unat g)))) = g"
proof -
  define e where "e = luminosity (real (unat g)) (real (unat g)) (real (unat g)) - real (unat g)"
  have "\<bar>e\<bar> \<le> 1 / 2 ^ 43" unfolding e_def by (rule luminosity_same)
  moreover have "(1 :: real) / 2 ^ 43 < 1 / 2" by simp
  ultimately have "\<bar>e\<bar> < 1 / 2" by linarith
  then have "ToUint8Clamp (real (unat g) + e) = g" by (rule ToUint8Clamp_robust)
  moreover have "real (unat g) + e = luminosity (real (unat g)) (real (unat g)) (real (unat g))"
    unfolding e_def by simp
  ultimately show ?thesis by (simp only: storeByte_def option.case)
qed

lemma maskLoop_idem: "maskLoop 0 m (maskLoop 0 m d) = maskLoop 0 m d"
proof (rule nth_equalityI)
  show "length (maskLoop 0 m (maskLoop 0 m d)) = length (maskLoop 0 m d)"
    by (simp only: maskLoop_length)
next
  fix j
  assume "j < length (maskLoop 0 m (maskLoop 0 m d))"
  then have j: "j < length d" by (simp only: maskLoop_length)
  let ?out = "maskLoop 0 m d"
  define t where "t = j div 4"
  define k where "k = j mod 4"
  have jk: "j = 4 * t + k" and k: "k < 4" by (simp_all add: t_def k_def)
  have len: "length ?out = length d" by (rule maskLoop_length)
  have one: "?out ! (4 * t + k) =
         (if k \<noteq> 3 \<and> readByte m (4 * t) = Some 0
          then storeByte (grayAt d (4 * t)) else d ! (4 * t + k))"
    using maskLoop_pixel[of t k d m] j k jk by simp
  have two: "maskLoop 0 m ?out ! (4 * t + k) =
         (if k \<noteq> 3 \<and> readByte m (4 * t) = Some 0
          then storeByte (grayAt ?out (4 * t)) else ?out ! (4 * t + k))"
    using maskLoop_pixel[of t k ?out m] j k jk len by simp
  show "maskLoop 0 m ?out ! j = ?out ! j"
  proof (cases "k \<noteq> 3 \<and> readByte m (4 * t) = Some 0")
    case False
    then show ?thesis unfolding jk two by (simp only: if_False)
  next
    case True
    let ?g = "storeByte (grayAt d (4 * t))"
    have "storeByte (grayAt ?out (4 * t)) = ?g"
    proof (cases "4 * t + 2 < length d")
      case short: False
      then have "grayAt ?out (4 * t) = None" "grayAt d (4 * t) = None"
        using len by (simp_all add: grayAt_short)
      then show ?thesis by (simp only:)
    next
      case full: True
      have p0: "?out ! (4 * t) = ?g"
        using maskLoop_pixel[of t 0 d m] full True by simp
      have p1: "?out ! (4 * t + 1) = ?g"
        using maskLoop_pixel[of t 1 d m] full True by simp
      have p2: "?out ! (4 * t + 2) = ?g"
        using maskLoop_pixel[of t 2 d m] full True by simp
      have "grayAt ?out (4 * t) =
              Some (luminosity (real (unat ?g)) (real (unat ?g)) (real (unat ?g)))"
        using grayAt_full[of "4 * t" ?out] full len unfolding p0 p1 p2 by (simp only:)
      then show ?thesis by (simp only: storeByte_gray_pixel)
    qed
    then show ?thesis unfolding jk two one using True by (simp only: if_True simp_thms)
  qed
qed

text \<open>
  C3 (amended). For every pixel \<open>p\<close> of the image data and the mask byte at the same
  index: if the mask's red byte is 0, the pixel's R, G and B all become one byte, the
  luminosity that the code computes in double arithmetic as the byte array stores it;
  this byte is at most one half away from the exact \<open>0.3 R + 0.59 G + 0.11 B\<close>; alpha
  is unchanged. Otherwise the pixel is unchanged. \<open>applyGrayscaleMask\<close> puts exactly
  this array back when the mask canvas yields its context.
\<close>

theorem applyGrayscaleMask_pixel:
  "4 * p + 3 < length d \<longrightarrow>
     (let out = maskLoop 0 m d;
          R = unat (d ! (4 * p));
          G = unat (d ! (4 * p + 1));
          B = unat (d ! (4 * p + 2));
          q = ToUint8Clamp (luminosity (real R) (real G) (real B))
      in applyGrayscaleMask ctx d m = (if ctx then [PutImageData out] else []) \<and>
         (readByte m (4 * p) = Some 0 \<longrightarrow>
            out ! (4 * p) = q \<and> out ! (4 * p + 1) = q \<and> out ! (4 * p + 2) = q \<and>
            out ! (4 * p + 3) = d ! (4 * p + 3) \<and>
            \<bar>real (unat q) - (0.3 * real R + 0.59 * real G + 0.11 * real B)\<bar> \<le> 1 / 2) \<and>
         (readByte m (4 * p) \<noteq> Some 0 \<longrightarrow>
            out ! (4 * p) = d ! (4 * p) \<and> out ! (4 * p + 1) = d ! (4 * p + 1) \<and>
            out ! (4 * p + 2) = d ! (4 * p + 2) \<and> out ! (4 * p + 3) = d ! (4 * p + 3)))"
proof
  assume len: "4 * p + 3 < length d"
  let ?out = "maskLoop 0 m d"
  let ?R = "unat (d ! (4 * p))"
  let ?G = "unat (d ! (4 * p + 1))"
  let ?B = "unat (d ! (4 * p + 2))"
  let ?q = "ToUint8Clamp (luminosity (real ?R) (real ?G) (real ?B))"
  have g: "storeByte (grayAt d (4 * p)) = ?q"
    using grayAt_full[of "4 * p" d] len by (simp add: storeByte_def del: of_nat_unat)
  have n0: "?out ! (4 * p) = (if readByte m (4 * p) = Some 0 then ?q else d ! (4 * p))"
    using maskLoop_pixel[of p 0 d m] len unfolding g by simp
  have n1: "?out ! (4 * p + 1) = (if readByte m (4 * p) = Some 0 then ?q else d ! (4 * p + 1))"
    using maskLoop_pixel[of p 1 d m] len unfolding g by simp
  have n2: "?out ! (4 * p + 2) = (if readByte m (4 * p) = Some 0 then ?q else d ! (4 * p + 2))"
    using maskLoop_pixel[of p 2 d m] len unfolding g by simp
  have n3: "?out ! (4 * p + 3) = d ! (4 * p + 3)"
    using maskLoop_pixel[of p 3 d m] len by simp
  have "\<bar>real (unat ?q) - (3 / 10 * real ?R + 59 / 100 * real ?G + 11 / 100 * real ?B)\<bar> \<le> 1 / 2"
    by (rule stored_luminosity_near) (rule unat_byte_le)+
  then have near: "\<bar>real (unat ?q) - (0.3 * real ?R + 0.59 * real ?G + 0.11 * real ?B)\<bar> \<le> 1 / 2"
    by (simp del: of_nat_unat)
  have call: "applyGrayscaleMask ctx d m = (if ctx then [PutImageData ?out] else [])"
    by (simp add: applyGrayscaleMask_def)
  show "let out = ?out; R = ?R; G = ?G; B = ?B;
          q = ToUint8Clamp (luminosity (real R) (real G) (real B))
      in applyGrayscaleMask ctx d m = (if ctx then [PutImageData out] else []) \<and>
         (readByte m (4 * p) = Some 0 \<longrightarrow>
            out ! (4 * p) = q \<and> out ! (4 * p + 1) = q \<and> out ! (4 * p + 2) = q \<and>
            out ! (4 * p + 3) = d ! (4 * p + 3) \<and>
            \<bar>real (unat q) - (0.3 * real R + 0.59 * real G + 0.11 * real B)\<bar> \<le> 1 / 2) \<and>
         (readByte m (4 * p) \<noteq> Some 0 \<longrightarrow>
            out ! (4 * p) = d ! (4 * p) \<and> out ! (4 * p + 1) = d ! (4 * p + 1) \<and>
            out ! (4 * p + 2) = d ! (4 * p + 2) \<and> out ! (4 * p + 3) = d ! (4 * p + 3))"
    unfolding Let_def using call n0 n1 n2 n3 near
    by (simp only: simp_thms if_True if_False split: if_splits)
qed

text \<open>
  The doubles of the examples: the constants \<open>0.3\<close>, \<open>0.59\<close> and \<open>0.11\<close>, and the products
  and sums for the pixels (0, 44, 14), (1, 0, 0), (1, 1, 1) and (255, 0, 0). The
  luminosity of (0, 44, 14) is \<open>27.499999999999996\<close> and that of (1, 1, 1) is
  \<open>0.9999999999999999\<close>.
\<close>

lemma fl_lum_1: "fl (3 / 10) = 5404319552844595 / 18014398509481984"
  using fl_at[of "- 2" "3 / 10"] by (simp add: roundTiesToEven_def)

lemma fl_lum_2: "fl (59 / 100) = 5314247560297185 / 9007199254740992"
  using fl_at[of "- 1" "59 / 100"] by (simp add: roundTiesToEven_def)

lemma fl_lum_3: "fl (11 / 100) = 7926335344172073 / 72057594037927936"
  using fl_at[of "- 4" "11 / 100"] by (simp add: roundTiesToEven_def)

lemma fl_lum_4: "fl (58456723163269035 / 2251799813685248) = 7307090395408629 / 281474976710656"
  using fl_at[of 4 "58456723163269035 / 2251799813685248"] by (simp add: roundTiesToEven_def)

lemma fl_lum_5: "fl (7307090395408629 / 281474976710656) = 7307090395408629 / 281474976710656"
  using fl_at[of 4 "7307090395408629 / 281474976710656"] by (simp add: roundTiesToEven_def)

lemma fl_lum_6: "fl (55484347409204511 / 36028797018963968) = 1733885856537641 / 1125899906842624"
  using fl_at[of 0 "55484347409204511 / 36028797018963968"] by (simp add: roundTiesToEven_def)

lemma fl_lum_7: "fl (30962247438172157 / 1125899906842624) = 7740561859543039 / 281474976710656"
  using fl_at[of 4 "30962247438172157 / 1125899906842624"] by (simp add: roundTiesToEven_def)

lemma fl_lum_8: "fl (5404319552844595 / 18014398509481984) = 5404319552844595 / 18014398509481984"
  using fl_at[of "- 2" "5404319552844595 / 18014398509481984"] by (simp add: roundTiesToEven_def)

lemma fl_lum_9: "fl (5314247560297185 / 9007199254740992) = 5314247560297185 / 9007199254740992"
  using fl_at[of "- 1" "5314247560297185 / 9007199254740992"] by (simp add: roundTiesToEven_def)

lemma fl_lum_10: "fl (16032814673438965 / 18014398509481984) = 4008203668359741 / 4503599627370496"
  using fl_at[of "- 1" "16032814673438965 / 18014398509481984"] by (simp add: roundTiesToEven_def)

lemma fl_lum_11: "fl (7926335344172073 / 72057594037927936) = 7926335344172073 / 72057594037927936"
  using fl_at[of "- 4" "7926335344172073 / 72057594037927936"] by (simp add: roundTiesToEven_def)

lemma fl_lum_12: "fl (72057594037927929 / 72057594037927936) = 9007199254740991 / 9007199254740992"
  using fl_at[of "- 1" "72057594037927929 / 72057594037927936"] by (simp add: roundTiesToEven_def)

lemma fl_lum_13: "fl (1378101485975371725 / 18014398509481984) = 153 / 2"
  using fl_at[of 6 "1378101485975371725 / 18014398509481984"] by (simp add: roundTiesToEven_def)

lemma fl_lum_14: "fl (153 / 2) = 153 / 2"
  using fl_at[of 6 "153 / 2"] by (simp add: roundTiesToEven_def)

lemmas fl_luminosity = fl_lum_1 fl_lum_2 fl_lum_3 fl_lum_4 fl_lum_5 fl_lum_6 fl_lum_7 fl_lum_8 fl_lum_9 fl_lum_10 fl_lum_11 fl_lum_12 fl_lum_13 fl_lum_14

theorem applyGrayscaleMask_pixel_witness:
  "maskLoop 0 [255, 255, 255, 255, 0, 0, 0, 255, 255, 255, 255, 255]
       [7, 7, 7, 7, 0, 44, 14, 9, 10, 20, 30, 40] ! 4 = 27 \<and>
   maskLoop 0 [255, 255, 255, 255, 0, 0, 0, 255, 255, 255, 255, 255]
       [7, 7, 7, 7, 0, 44, 14, 9, 10, 20, 30, 40] ! 5 = 27 \<and>
   maskLoop 0 [255, 255, 255, 255, 0, 0, 0, 255, 255, 255, 255, 255]
       [7, 7, 7, 7, 0, 44, 14, 9, 10, 20, 30, 40] ! 6 = 27 \<and>
   maskLoop 0 [255, 255, 255, 255, 0, 0, 0, 255, 255, 255, 255, 255]
       [7, 7, 7, 7, 0, 44, 14, 9, 10, 20, 30, 40] ! 7 = 9 \<and>
   maskLoop 0 [255, 255, 255, 255, 0, 0, 0, 255, 255, 255, 255, 255]
       [7, 7, 7, 7, 0, 44, 14, 9, 10, 20, 30, 40] ! 8 = 10 \<and>
   maskLoop 0 [255, 255, 255, 255, 0, 0, 0, 255, 255, 255, 255, 255]
       [7, 7, 7, 7, 0, 44, 14, 9, 10, 20, 30, 40] ! 9 = 20 \<and>
   maskLoop 0 [255, 255, 255, 255, 0, 0, 0, 255, 255, 255, 255, 255]
       [7, 7, 7, 7, 0, 44, 14, 9, 10, 20, 30, 40] ! 10 = 30 \<and>
   maskLoop 0 [255, 255, 255, 255, 0, 0, 0, 255, 255, 255, 255, 255]
       [7, 7, 7, 7, 0, 44, 14, 9, 10, 20, 30, 40] ! 11 = 40 \<and>
   luminosity 0 44 14 = 7740561859543039 / 281474976710656"
  using
    applyGrayscaleMask_pixel[of 1 "[7, 7, 7, 7, 0, 44, 14, 9, 10, 20, 30, 40]"
      "[255, 255, 255, 255, 0, 0, 0, 255, 255, 255, 255, 255]" True]
    applyGrayscaleMask_pixel[of 2 "[7, 7, 7, 7, 0, 44, 14, 9, 10, 20, 30, 40]"
      "[255, 255, 255, 255, 0, 0, 0, 255, 255, 255, 255, 255]" True]
  by (simp add: Let_def readByte_def ToUint8Clamp_def luminosity_def dmul_def dadd_def
      fl_luminosity)

text \<open>
  C3 as stated fails: under a black mask the pixel (1, 0, 0) has the luminosity
  \<open>0.3\<close> (the double nearest to it), and its channels become 0.
\<close>

theorem applyGrayscaleMask_luminosity_counterexample:
  "applyGrayscaleMask True [1, 0, 0, 255] [0, 0, 0, 255] = [PutImageData [0, 0, 0, 255]] \<and>
   luminosity 1 0 0 = 5404319552844595 / 18014398509481984 \<and>
   real (unat (0 :: 8 word)) \<noteq> luminosity 1 0 0"
  by (simp add: applyGrayscaleMask_def maskLoop.simps readByte_def grayAt_def storeByte_def
      ToUint8Clamp_def luminosity_def dmul_def dadd_def fl_luminosity)

text \<open>
  C10 (amended). For a pixel with three equal channels \<open>v\<close> the luminosity that the
  code computes is within \<open>2^-43\<close> of \<open>v\<close>, and the byte stored for it is \<open>v\<close>; so
  masking a second time with the same mask changes nothing.
\<close>

theorem grayscale_idempotent:
  "\<bar>luminosity (real (unat v)) (real (unat v)) (real (unat v)) - real (unat v)\<bar> \<le> 1 / 2 ^ 43 \<and>
   ToUint8Clamp (luminosity (real (unat v)) (real (unat v)) (real (unat v))) = v \<and>
   maskLoop 0 m (maskLoop 0 m d) = maskLoop 0 m d \<and>
   applyGrayscaleMask ctx (maskLoop 0 m d) m = applyGrayscaleMask ctx d m"
proof -
  have "ToUint8Clamp (luminosity (real (unat v)) (real (unat v)) (real (unat v))) = v"
    using storeByte_gray_pixel[of v] by (simp only: storeByte_def option.case)
  then show ?thesis
    using luminosity_same[of v] maskLoop_idem[of m d]
    by (simp only: applyGrayscaleMask_def simp_thms)
qed

text \<open>
  C10 as stated fails: the formula does not return exactly \<open>v\<close>. For \<open>v = 1\<close> the code's
  \<open>0.3 * 1 + 0.59 * 1 + 0.11 * 1\<close> is \<open>0.9999999999999999\<close>.
\<close>

theorem grayscale_formula_counterexample:
  "luminosity 1 1 1 = 9007199254740991 / 9007199254740992 \<and> luminosity 1 1 1 \<noteq> 1"
  by (simp add: luminosity_def dmul_def dadd_def fl_luminosity)

subsection \<open>The wave warper\<close>

lemma less_width_iff: "real x < w \<longleftrightarrow> x < nat \<lceil>w\<rceil>"
proof -
  have "real x < w \<longleftrightarrow> int x < \<lceil>w\<rceil>" by (simp add: less_ceiling_iff)
  also have "\<dots> \<longleftrightarrow> x < nat \<lceil>w\<rceil>" by linarith
  finally show ?thesis .
qed

lemma warpLoop_map:
  "warpLoop msin x w h a f p b =
     map (\<lambda>k. DrawImageSlice PatternCanvas (real k) 0 1 h (real k)
                 (real_of_int (round (dadd b (dmul a (msin (dadd (dmul f (real k)) p)))))) 1 h)
       [x..<nat \<lceil>w\<rceil>]"
proof (induction msin x w h a f p b rule: warpLoop.induct)
  case (1 msin x w h a f p b)
  let ?col = "\<lambda>k. DrawImageSlice PatternCanvas (real k) 0 1 h (real k)
                 (real_of_int (round (dadd b (dmul a (msin (dadd (dmul f (real k)) p)))))) 1 h"
  show ?case
  proof (cases "real x < w")
    case True
    then have lt: "x < nat \<lceil>w\<rceil>" by (simp add: less_width_iff)
    have "warpLoop msin x w h a f p b = ?col x # warpLoop msin (Suc x) w h a f p b"
      using True by (subst warpLoop.simps) (simp add: Let_def)
    also have "\<dots> = ?col x # map ?col [Suc x..<nat \<lceil>w\<rceil>]"
      using 1 True by (simp add: Let_def)
    also have "\<dots> = map ?col [x..<nat \<lceil>w\<rceil>]"
      using lt by (simp add: upt_conv_Cons)
    finally show ?thesis .
  next
    case False
    then have "\<not> x < nat \<lceil>w\<rceil>" by (simp add: less_width_iff)
    then show ?thesis using False by (subst warpLoop.simps) simp
  qed
qed

lemma applyWatermark_calls:
  assumes "fw \<noteq> 0"
  shows "snd (applyWatermark msin True rnd fw fh) =
         warpTextColumns msin (patternWidth fw fh) (patternHeight fw fh)
           (waveAmplitude rnd fh) (waveFrequency rnd fw) (wavePhase rnd) (waveBaseShift fh)"
  using assms by (simp add: applyWatermark_def Let_def)

text \<open>
  C6. For every column \<open>x\<close> below the width it is given, \<open>warpTextColumns\<close> issues, as its
  call number \<open>x\<close>, the copy of the one pixel wide, full height slice of the pattern
  canvas at \<open>x\<close> to the position \<open>x\<close>, \<open>Math.round (baseShift + amplitude * Math.sin
  (frequency * x + phase))\<close> of the main canvas, each operation a double operation, and
  it issues no other call. \<open>applyWatermark\<close> hands it the pattern's width and height
  and the base shift \<open>- finalHeight * 0.1\<close>. The width is at most \<open>2^53\<close>, up to where
  the counter \<open>x\<close> is exact.
\<close>

theorem warpTextColumns_columns:
  "(w \<le> 2 ^ 53 \<longrightarrow>
      (\<forall>x. real x < w \<longrightarrow>
         warpTextColumns msin w h a f p b ! x =
           DrawImageSlice PatternCanvas (real x) 0 1 h (real x)
             (real_of_int (round (dadd b (dmul a (msin (dadd (dmul f (real x)) p)))))) 1 h) \<and>
      length (warpTextColumns msin w h a f p b) = nat \<lceil>w\<rceil>) \<and>
   (fw \<noteq> 0 \<longrightarrow>
      snd (applyWatermark msin True rnd fw fh) =
        warpTextColumns msin (patternWidth fw fh) (patternHeight fw fh)
          (waveAmplitude rnd fh) (waveFrequency rnd fw) (wavePhase rnd) (waveBaseShift fh)) \<and>
   waveBaseShift fh = dmul (- fh) (fl 0.1)"
proof -
  have col: "warpTextColumns msin w h a f p b ! x =
         DrawImageSlice PatternCanvas (real x) 0 1 h (real x)
           (real_of_int (round (dadd b (dmul a (msin (dadd (dmul f (real x)) p)))))) 1 h"
    if "real x < w" for x
  proof -
    have "x < nat \<lceil>w\<rceil>" using that by (simp add: less_width_iff)
    then show ?thesis by (simp add: warpTextColumns_def warpLoop_map)
  qed
  have len: "length (warpTextColumns msin w h a f p b) = nat \<lceil>w\<rceil>"
    by (simp add: warpTextColumns_def warpLoop_map)
  have app: "snd (applyWatermark msin True rnd fw fh) =
        warpTextColumns msin (patternWidth fw fh) (patternHeight fw fh)
          (waveAmplitude rnd fh) (waveFrequency rnd fw) (wavePhase rnd) (waveBaseShift fh)"
    if "fw \<noteq> 0"
    using that by (rule applyWatermark_calls)
  have shift: "waveBaseShift fh = dmul (- fh) (fl 0.1)" by (simp add: waveBaseShift_def)
  show ?thesis using col len app shift by blast
qed

text \<open>
  The doubles of the examples. An image 100, 650 or 90 wide gives the final widths
  \<open>110.00000000000001\<close>, \<open>715.0000000000001\<close> and \<open>99.00000000000001\<close>; the pattern widths
  are \<open>270\<close>, \<open>919.0000000000001\<close> and \<open>259\<close>.
\<close>

lemma fl_numeral:
  assumes "(numeral n :: real) < 2 ^ 53"
  shows "fl (numeral n) = numeral n"
proof -
  have "fl (real (numeral n)) = real (numeral n)"
    by (rule fl_nat) (use assms in \<open>simp flip: of_nat_less_iff[where 'a = real]\<close>)
  then show ?thesis by simp
qed

lemma fl_1_10: "fl (1 / 10) = 3602879701896397 / 36028797018963968"
  using fl_at[of "- 4" "1 / 10"] by (simp add: roundTiesToEven_def)

lemma fl_3_5: "fl (3 / 5) = 5404319552844595 / 9007199254740992"
  using fl_at[of "- 1" "3 / 5"] by (simp add: roundTiesToEven_def)

lemma fl_width_100: "fl (61924494876344325 / 562949953421312) = 7740561859543041 / 70368744177664"
  using fl_at[of 6 "61924494876344325 / 562949953421312"] by (simp add: roundTiesToEven_def)

lemma fl_font_100: "fl (7740561859543041 / 4925812092436480) = 3538542564362533 / 2251799813685248"
  using fl_at[of 0 "7740561859543041 / 4925812092436480"] by (simp add: roundTiesToEven_def)

lemma fl_pattern_100: "fl (18999560927969281 / 70368744177664) = 270"
  using fl_at[of 8 "18999560927969281 / 70368744177664"] by (simp add: roundTiesToEven_def)

lemma fl_width_650: "fl (805018433392476225 / 1125899906842624) = 6289206510878721 / 8796093022208"
  using fl_at[of 9 "805018433392476225 / 1125899906842624"] by (simp add: roundTiesToEven_def)

lemma fl_height_650: "fl (1625 / 2) = 1625 / 2"
  using fl_at[of 9 "1625 / 2"] by (simp add: roundTiesToEven_def)

lemma fl_font_650: "fl (6289206510878721 / 615726511554560) = 1437532916772279 / 140737488355328"
  using fl_at[of 3 "6289206510878721 / 615726511554560"] by (simp add: roundTiesToEven_def)

lemma fl_padding_650: "fl (7187664583861395 / 70368744177664) = 7187664583861395 / 70368744177664"
  using fl_at[of 6 "7187664583861395 / 70368744177664"] by (simp add: roundTiesToEven_def)

lemma fl_pattern_650: "fl (8083609487409153 / 8796093022208) = 8083609487409153 / 8796093022208"
  using fl_at[of 9 "8083609487409153 / 8796093022208"] by (simp add: roundTiesToEven_def)

lemma fl_pattern_height_650: "fl (2645 / 2) = 2645 / 2"
  using fl_at[of 10 "2645 / 2"] by (simp add: roundTiesToEven_def)

lemma fl_width_90: "fl (111464090777419785 / 1125899906842624) = 6966505673588737 / 70368744177664"
  using fl_at[of 6 "111464090777419785 / 1125899906842624"] by (simp add: roundTiesToEven_def)

lemma fl_height_90: "fl (225 / 2) = 225 / 2"
  using fl_at[of 6 "225 / 2"] by (simp add: roundTiesToEven_def)

lemma fl_font_90: "fl (6966505673588737 / 4925812092436480) = 398086038490785 / 281474976710656"
  using fl_at[of 0 "6966505673588737 / 4925812092436480"] by (simp add: roundTiesToEven_def)

lemma fl_pattern_90: "fl (18225504742014977 / 70368744177664) = 259"
  using fl_at[of 8 "18225504742014977 / 70368744177664"] by (simp add: roundTiesToEven_def)

lemma fl_pattern_height_90: "fl (1025 / 2) = 1025 / 2"
  using fl_at[of 9 "1025 / 2"] by (simp add: roundTiesToEven_def)

lemma fl_draw_90: "fl (27021597764222975 / 9007199254740992) = 3"
  using fl_at[of 1 "27021597764222975 / 9007199254740992"] by (simp add: roundTiesToEven_def)

lemma fl_amplitude_90: "fl (25 / 4) = 25 / 4"
  using fl_at[of 2 "25 / 4"] by (simp add: roundTiesToEven_def)

lemma fl_shift_90: "fl (- (810647932926689325 / 72057594037927936)) = - (45 / 4)"
  using fl_at[of 3 "- (810647932926689325 / 72057594037927936)"]
  by (simp add: roundTiesToEven_def)

lemma fl_wave_90: "fl (- (25 / 4)) = - (25 / 4)"
  using fl_at[of 2 "- (25 / 4)"] by (simp add: roundTiesToEven_def)

lemma fl_offset_90: "fl (- (35 / 2)) = - (35 / 2)"
  using fl_at[of 4 "- (35 / 2)"] by (simp add: roundTiesToEven_def)

lemmas fl_watermark =
  fl_numeral fl_11_10 fl_1_10 fl_3_5 fl_width_100 fl_font_100 fl_pattern_100 fl_width_650
  fl_height_650 fl_font_650 fl_padding_650 fl_pattern_650 fl_pattern_height_650 fl_width_90
  fl_height_90 fl_font_90 fl_pattern_90 fl_pattern_height_90 fl_draw_90 fl_amplitude_90
  fl_shift_90 fl_wave_90 fl_offset_90

lemmas watermark_defs =
  patternWidth_def patternHeight_def extraPadding_def watermarkFontSize_def waveAmplitude_def
  waveBaseShift_def dmul_def ddiv_def dadd_def round_def

theorem warpTextColumns_columns_witness:
  "length (warpTextColumns (\<lambda>x. - 1) (3 / 2) 10 (25 / 4) 0 0 (- (45 / 4))) = 2 \<and>
   warpTextColumns (\<lambda>x. - 1) (3 / 2) 10 (25 / 4) 0 0 (- (45 / 4)) ! 1 =
     DrawImageSlice PatternCanvas 1 0 1 10 1 (- 17) 1 10 \<and>
   patternWidth (dmul 100 (fl 1.1)) (dmul 100 1.25) = 270 \<and>
   length (snd (applyWatermark (mathSin idealEnv) True (waveRandom idealEnv)
                  (dmul 100 (fl 1.1)) (dmul 100 1.25))) = 270 \<and>
   patternWidth (dmul 650 (fl 1.1)) (dmul 650 1.25) = 8083609487409153 / 8796093022208 \<and>
   length (snd (applyWatermark (mathSin idealEnv) True (waveRandom idealEnv)
                  (dmul 650 (fl 1.1)) (dmul 650 1.25))) = 920 \<and>
   waveAmplitude \<lparr>rndAmplitude = fl 0.6, rndFrequency = 0, rndPhase = 3 / 4\<rparr> (dmul 90 1.25)
     = 25 / 4 \<and>
   waveBaseShift (dmul 90 1.25) = - (45 / 4) \<and>
   snd (applyWatermark (\<lambda>x. - 1) True \<lparr>rndAmplitude = fl 0.6, rndFrequency = 0, rndPhase = 3 / 4\<rparr>
          (dmul 90 (fl 1.1)) (dmul 90 1.25)) ! 0 =
     DrawImageSlice PatternCanvas 0 0 1 (1025 / 2) 0 (- 17) 1 (1025 / 2)"
  using
    warpTextColumns_columns[where w = "3 / 2" and msin = "\<lambda>x. - 1" and h = 10 and a = "25 / 4"
      and f = 0 and p = 0 and b = "- (45 / 4)" and fw = 1 and fh = 1
      and rnd = "waveRandom idealEnv"]
    warpTextColumns_columns[where fw = "dmul 100 (fl 1.1)" and fh = "dmul 100 1.25"
      and msin = "mathSin idealEnv" and rnd = "waveRandom idealEnv"
      and w = "patternWidth (dmul 100 (fl 1.1)) (dmul 100 1.25)"
      and h = "patternHeight (dmul 100 (fl 1.1)) (dmul 100 1.25)"
      and a = "waveAmplitude (waveRandom idealEnv) (dmul 100 1.25)"
      and f = "waveFrequency (waveRandom idealEnv) (dmul 100 (fl 1.1))"
      and p = "wavePhase (waveRandom idealEnv)" and b = "waveBaseShift (dmul 100 1.25)"]
    warpTextColumns_columns[where fw = "dmul 650 (fl 1.1)" and fh = "dmul 650 1.25"
      and msin = "mathSin idealEnv" and rnd = "waveRandom idealEnv"
      and w = "patternWidth (dmul 650 (fl 1.1)) (dmul 650 1.25)"
      and h = "patternHeight (dmul 650 (fl 1.1)) (dmul 650 1.25)"
      and a = "waveAmplitude (waveRandom idealEnv) (dmul 650 1.25)"
      and f = "waveFrequency (waveRandom idealEnv) (dmul 650 (fl 1.1))"
      and p = "wavePhase (waveRandom idealEnv)" and b = "waveBaseShift (dmul 650 1.25)"]
    warpTextColumns_columns[where fw = "dmul 90 (fl 1.1)" and fh = "dmul 90 1.25"
      and msin = "\<lambda>x. - 1"
      and rnd = "\<lparr>rndAmplitude = fl 0.6, rndFrequency = 0, rndPhase = 3 / 4\<rparr>"
      and w = "patternWidth (dmul 90 (fl 1.1)) (dmul 90 1.25)"
      and h = "patternHeight (dmul 90 (fl 1.1)) (dmul 90 1.25)"
      and a = "waveAmplitude \<lparr>rndAmplitude = fl 0.6, rndFrequency = 0, rndPhase = 3 / 4\<rparr>
                 (dmul 90 1.25)"
      and f = "waveFrequency \<lparr>rndAmplitude = fl 0.6, rndFrequency = 0, rndPhase = 3 / 4\<rparr>
                 (dmul 90 (fl 1.1))"
      and p = "wavePhase \<lparr>rndAmplitude = fl 0.6, rndFrequency = 0, rndPhase = 3 / 4\<rparr>"
      and b = "waveBaseShift (dmul 90 1.25)"]
  by (simp add: watermark_defs fl_watermark)

subsection \<open>The padding of the pattern canvas\<close>

lemma watermarkFontSize_bounds:
  assumes "0 \<le> fw" and "fw < 2751" and "0 \<le> fh"
  shows "8 \<le> watermarkFontSize fw fh" and "watermarkFontSize fw fh \<le> 40"
proof -
  show "8 \<le> watermarkFontSize fw fh" by (simp add: watermarkFontSize_def)
  have lo: "0 \<le> min fw fh / 70" using assms by simp
  have "min fw fh \<le> 2751" using assms by simp
  then have "min fw fh / 70 \<le> 2751 / 70" by (intro divide_right_mono) simp_all
  then have hi: "min fw fh / 70 \<le> real_of_int 40" by simp
  have "\<bar>min fw fh / 70\<bar> < 2 ^ 53" using lo hi by simp
  then have "fl (min fw fh / 70) \<le> real_of_int 40" using hi by (rule fl_le_int)
  then show "watermarkFontSize fw fh \<le> 40" by (simp add: watermarkFontSize_def ddiv_def)
qed

lemma extraPadding_nat:
  assumes "0 \<le> fw" and "fw < 2751" and "0 \<le> fh"
  shows "extraPadding fw fh = real (nat (round (dmul (watermarkFontSize fw fh) 10)))"
    and "nat (round (dmul (watermarkFontSize fw fh) 10)) \<le> 400"
proof -
  let ?x = "watermarkFontSize fw fh * 10"
  have b: "real_of_int 80 \<le> ?x" "?x \<le> real_of_int 400"
    using watermarkFontSize_bounds[OF assms] by simp_all
  have s: "\<bar>?x\<bar> < 2 ^ 53" using b by simp
  have "real_of_int 80 \<le> fl ?x" using s b(1) by (rule fl_ge_int)
  then have lo: "0 \<le> round (fl ?x)" using round_mono[of 0 "fl ?x"] by simp
  have "fl ?x \<le> real_of_int 400" using s b(2) by (rule fl_le_int)
  then have hi: "round (fl ?x) \<le> 400" using round_mono[of "fl ?x" 400] by simp
  show "extraPadding fw fh = real (nat (round (dmul (watermarkFontSize fw fh) 10)))"
    using lo by (simp add: extraPadding_def dmul_def)
  show "nat (round (dmul (watermarkFontSize fw fh) 10)) \<le> 400"
    unfolding dmul_def using hi by linarith
qed

text \<open>
  Adding an integer to a double that is not within \<open>1/20\<close> below the next integer
  does not carry the sum over an integer.
\<close>

lemma floor_fl_add:
  assumes "0 \<le> x" and "x \<le> real_of_int \<lfloor>x\<rfloor> + 19 / 20" and "x < 4000" and "k \<le> 2000"
  shows "\<lfloor>fl (x + real k)\<rfloor> = \<lfloor>x\<rfloor> + int k"
proof -
  have k: "real k \<le> 2000" using assms(4) by simp
  have s: "\<bar>x + real k\<bar> < 8192" using assms(1,3) k by simp
  then have "\<bar>x + real k\<bar> < pow2 13" by simp
  then have "\<bar>fl (x + real k) - (x + real k)\<bar> \<le> pow2 (13 - 54)" by (rule fl_error_below) simp
  then have e: "\<bar>fl (x + real k) - (x + real k)\<bar> \<le> 1 / 2 ^ 41" by simp
  have t: "(1 :: real) / 2 ^ 41 \<le> 1 / 100" by simp
  have "real_of_int (\<lfloor>x\<rfloor> + int k) \<le> x + real k" by simp
  moreover have "\<bar>x + real k\<bar> < 2 ^ 53" using s by simp
  ultimately have lo: "real_of_int (\<lfloor>x\<rfloor> + int k) \<le> fl (x + real k)" by (intro fl_ge_int)
  have "fl (x + real k) \<le> real_of_int \<lfloor>x\<rfloor> + 19 / 20 + real k + 1 / 100"
    using e t assms(2) by linarith
  then have hi: "fl (x + real k) < real_of_int (\<lfloor>x\<rfloor> + int k) + 1" by simp
  show ?thesis using lo hi by (intro floor_unique)
qed

text \<open>
  C9 (amended). The pattern canvas is wider than the final surface by twice, and higher
  by five times, the padding \<open>Math.round (fontSize * 10)\<close>, where \<open>fontSize\<close> is
  \<open>Math.max (8, Math.min (finalWidth, finalHeight) / 70)\<close>. This holds of the dimensions
  of the two canvases for the final widths and heights that \<open>processImage\<close> passes,
  \<open>1.1\<close> and \<open>1.25\<close> times a resized dimension of at most 2500. Of the numbers handed to
  the warp, the pattern height is the final height plus five paddings, and the pattern
  width is the double nearest to the final width plus two paddings.
\<close>

theorem applyWatermark_padding:
  "n \<le> 2500 \<and> m \<le> 2500 \<longrightarrow>
     (let fw = dmul (real n) (fl 1.1);
          fh = dmul (real m) 1.25;
          p = fst (applyWatermark msin ctx rnd fw fh);
          ep = nat (round (dmul (watermarkFontSize fw fh) 10))
      in patternWidth fw fh = fl (fw + 2 * real ep) \<and>
         \<bar>patternWidth fw fh - (fw + 2 * real ep)\<bar> \<le> 1 / 2 ^ 41 \<and>
         patternHeight fw fh = fh + 5 * real ep \<and>
         width p = width (setWidth fw c) + 2 * ep \<and>
         height p = height (setHeight fh c) + 5 * ep)"
proof
  assume a: "n \<le> 2500 \<and> m \<le> 2500"
  define fw where "fw = dmul (real n) (fl 1.1)"
  define fh where "fh = dmul (real m) 1.25"
  define ep where "ep = nat (round (dmul (watermarkFontSize fw fh) 10))"
  define p where "p = fst (applyWatermark msin ctx rnd fw fh)"
  have n: "n \<le> 2500" and m: "m \<le> 2500" using a by simp_all
  have fw: "fw = dmul (real n) (fl (11 / 10))" unfolding fw_def by simp
  have fh: "fh = real m * (5 / 4)" unfolding fh_def using dmul_5_4[OF m] by simp
  have fw0: "0 \<le> fw" and fw1: "fw < 2751"
    unfolding fw using canvasWidth_range[OF n] by simp_all
  have fwf: "fw \<le> real_of_int \<lfloor>fw\<rfloor> + 19 / 20"
    unfolding fw floor_dmul_11_10[OF n] using dmul_11_10_range(3)[OF n] .
  have fh0: "0 \<le> fh" unfolding fh by simp
  have fh1: "fh \<le> 3125" unfolding fh using m by simp
  have ep: "extraPadding fw fh = real ep" and le: "ep \<le> 400"
    unfolding ep_def using extraPadding_nat[OF fw0 fw1 fh0] by simp_all
  have "fl (real (2 * ep)) = real (2 * ep)" by (rule fl_nat) (use le in simp)
  then have two: "dmul (real ep) 2 = real (2 * ep)" by (simp add: dmul_def mult.commute)
  have "fl (real (5 * ep)) = real (5 * ep)" by (rule fl_nat) (use le in simp)
  then have five: "dmul (real ep) 5 = real (5 * ep)" by (simp add: dmul_def mult.commute)
  have pw: "patternWidth fw fh = fl (fw + real (2 * ep))"
    by (simp only: patternWidth_def ep two dadd_def)
  have "\<bar>fw + real (2 * ep)\<bar> < pow2 13" using fw0 fw1 le by simp
  then have "\<bar>fl (fw + real (2 * ep)) - (fw + real (2 * ep))\<bar> \<le> pow2 (13 - 54)"
    by (rule fl_error_below) simp
  then have pwe: "\<bar>patternWidth fw fh - (fw + real (2 * ep))\<bar> \<le> 1 / 2 ^ 41"
    unfolding pw by simp
  have "\<bar>real_of_int (int (5 * m + 20 * ep))\<bar> < 2 ^ 53" using m le by simp
  then have "fl (real_of_int (int (5 * m + 20 * ep)) / 2 ^ 2)
      = real_of_int (int (5 * m + 20 * ep)) / 2 ^ 2"
    by (rule fl_dyadic) simp
  moreover have "real_of_int (int (5 * m + 20 * ep)) / 2 ^ 2 = fh + real (5 * ep)"
    unfolding fh by simp
  ultimately have "fl (fh + real (5 * ep)) = fh + real (5 * ep)" by (simp only:)
  then have ph: "patternHeight fw fh = fh + real (5 * ep)"
    by (simp only: patternHeight_def ep five dadd_def)
  have pc: "p = \<lparr>width = setDimension 300 (patternWidth fw fh),
                  height = setDimension 150 (patternHeight fw fh)\<rparr>"
    unfolding p_def
    by (simp add: applyWatermark_def Let_def setWidth_def setHeight_def createCanvas_def)
  have fl_w: "\<lfloor>fl (fw + real (2 * ep))\<rfloor> = \<lfloor>fw\<rfloor> + int (2 * ep)"
    by (rule floor_fl_add) (use fw0 fw1 fwf le in simp_all)
  have w0: "0 \<le> \<lfloor>fw\<rfloor>" using fw0 by simp
  have w1: "\<lfloor>fw\<rfloor> \<le> 2750" using fw1 by (simp add: floor_le_iff)
  have "0 \<le> fl (fw + real (2 * ep))" using fw0 by (intro fl_nonneg) simp
  moreover have "fl (fw + real (2 * ep)) < 2147483648"
  proof -
    have "fl (fw + real (2 * ep)) < real_of_int \<lfloor>fl (fw + real (2 * ep))\<rfloor> + 1" by linarith
    also have "\<dots> = real_of_int (\<lfloor>fw\<rfloor> + int (2 * ep)) + 1" by (simp only: fl_w)
    also have "\<dots> = real_of_int \<lfloor>fw\<rfloor> + real (2 * ep) + 1" by simp
    also have "\<dots> \<le> fw + real (2 * ep) + 1" by simp
    also have "\<dots> < 2751 + 800 + 1" using fw1 le by simp
    finally show ?thesis by simp
  qed
  ultimately have "setDimension 300 (fl (fw + real (2 * ep))) = nat \<lfloor>fl (fw + real (2 * ep))\<rfloor>"
    by (rule setDimension_small)
  then have sw: "setDimension 300 (patternWidth fw fh) = nat \<lfloor>fw\<rfloor> + 2 * ep"
    unfolding pw fl_w using w0 by (simp add: nat_add_distrib)
  have "setDimension d' fw = nat \<lfloor>fw\<rfloor>" for d'
    by (rule setDimension_small) (use fw0 fw1 in simp_all)
  then have w: "width p = width (setWidth fw c) + 2 * ep"
    unfolding pc using sw by (simp add: setWidth_def)
  have "\<lfloor>fh + real (5 * ep)\<rfloor> = \<lfloor>fh\<rfloor> + int (5 * ep)"
    by (metis floor_add_int of_int_of_nat_eq)
  moreover have h0: "0 \<le> \<lfloor>fh\<rfloor>" using fh0 by simp
  moreover have "setDimension 150 (fh + real (5 * ep)) = nat \<lfloor>fh + real (5 * ep)\<rfloor>"
    by (rule setDimension_small) (use fh0 fh1 le in simp_all)
  ultimately have sh: "setDimension 150 (patternHeight fw fh) = nat \<lfloor>fh\<rfloor> + 5 * ep"
    unfolding ph by (simp add: nat_add_distrib)
  have "setDimension d' fh = nat \<lfloor>fh\<rfloor>" for d'
    by (rule setDimension_small) (use fh0 fh1 in simp_all)
  then have h: "height p = height (setHeight fh c) + 5 * ep"
    unfolding pc using sh by (simp add: setHeight_def)
  have "patternWidth fw fh = fl (fw + 2 * real ep) \<and>
         \<bar>patternWidth fw fh - (fw + 2 * real ep)\<bar> \<le> 1 / 2 ^ 41 \<and>
         patternHeight fw fh = fh + 5 * real ep \<and>
         width p = width (setWidth fw c) + 2 * ep \<and>
         height p = height (setHeight fh c) + 5 * ep"
    using pw pwe ph w h by simp
  note res = this[unfolded p_def ep_def fw_def fh_def]
  show "let fw = dmul (real n) (fl 1.1);
          fh = dmul (real m) 1.25;
          p = fst (applyWatermark msin ctx rnd fw fh);
          ep = nat (round (dmul (watermarkFontSize fw fh) 10))
      in patternWidth fw fh = fl (fw + 2 * real ep) \<and>
         \<bar>patternWidth fw fh - (fw + 2 * real ep)\<bar> \<le> 1 / 2 ^ 41 \<and>
         patternHeight fw fh = fh + 5 * real ep \<and>
         width p = width (setWidth fw c) + 2 * ep \<and>
         height p = height (setHeight fh c) + 5 * ep"
    unfolding Let_def by (rule res)
qed

theorem applyWatermark_padding_witness:
  "dmul 100 (fl 1.1) = 7740561859543041 / 70368744177664 \<and>
   patternWidth (dmul 100 (fl 1.1)) (dmul 100 1.25) = 270 \<and>
   patternHeight (dmul 100 (fl 1.1)) (dmul 100 1.25) = 525 \<and>
   width (setWidth (dmul 100 (fl 1.1)) createCanvas) = 110 \<and>
   height (setHeight (dmul 100 1.25) createCanvas) = 125 \<and>
   fst (applyWatermark (mathSin idealEnv) True (waveRandom idealEnv)
          (dmul 100 (fl 1.1)) (dmul 100 1.25)) =
     \<lparr>width = 270, height = 525\<rparr>"
  using applyWatermark_padding[of 100 100 "mathSin idealEnv" True "waveRandom idealEnv"
      createCanvas]
  by (simp add: Let_def watermark_defs fl_watermark setWidth_def setHeight_def
      createCanvas_def setDimension_small applyWatermark_def)

text \<open>
  C9 as stated fails: for the 110 by 125 surface of a 100 by 100 image the font size is
  8, and the pattern canvas is 270 by 525, not 190 by 205.
\<close>

theorem applyWatermark_padding_counterexample:
  "watermarkFontSize (dmul 100 (fl 1.1)) (dmul 100 1.25) = 8 \<and>
   real (width (fst (applyWatermark (mathSin idealEnv) True (waveRandom idealEnv)
                       (dmul 100 (fl 1.1)) (dmul 100 1.25))))
     \<noteq> real (width (setWidth (dmul 100 (fl 1.1)) createCanvas))
         + 10 * watermarkFontSize (dmul 100 (fl 1.1)) (dmul 100 1.25) \<and>
   real (height (fst (applyWatermark (mathSin idealEnv) True (waveRandom idealEnv)
                        (dmul 100 (fl 1.1)) (dmul 100 1.25))))
     \<noteq> real (height (setHeight (dmul 100 1.25) createCanvas))
         + 5 * watermarkFontSize (dmul 100 (fl 1.1)) (dmul 100 1.25) * 2"
  by (simp add: Let_def watermark_defs fl_watermark setWidth_def setHeight_def
      createCanvas_def setDimension_small applyWatermark_def)

subsection \<open>The caption\<close>

lemma processImage_calls:
  fixes e :: env and img :: "32 word \<times> 32 word" and t :: js_string
    and w h cw ch fontSize top :: real and lines :: "js_string list"
  assumes "mainCtx e"
    and "width (resizeImage (resizeCtx e) img) \<noteq> 0"
    and "height (resizeImage (resizeCtx e) img) \<noteq> 0"
  defines "w \<equiv> real (width (resizeImage (resizeCtx e) img))"
    and "h \<equiv> real (height (resizeImage (resizeCtx e) img))"
  defines "cw \<equiv> dmul w (fl 1.1)"
    and "ch \<equiv> dmul h 1.25"
  defines "fontSize \<equiv> max 14 (ddiv (min w h) 50)"
  defines "top \<equiv> dadd (dadd (dmul (dsub ch h) (fl 0.15)) h) (dmul fontSize 1.5)"
  defines "lines \<equiv> wrapText t (dmul cw (fl 0.9)) fontSize"
  shows "calls (processImage e img t (Some c)) =
           [SetFillStyle ''white'', FillRect 0 0 cw ch,
            DrawImage ResizedCanvas (ddiv (dsub cw w) 2) (dmul (dsub ch h) (fl 0.15)) w h,
            SetFont True fontSize, SetFillStyle ''black'', SetTextAlign ''start'']
           @ map (\<lambda>(index, line).
                    FillText line (dmul cw (fl 0.05))
                      (dadd top (dmul (dmul (real index) fontSize) (fl 1.2))))
               (enumerate 0 lines)
           @ [SetFont False fontSize,
              FillText caption (dmul cw (fl 0.05)) (dadd top (dmul fontSize 2))]
           @ snd (applyWatermark (mathSin e) (patternCtx e) (waveRandom e) cw ch)
           @ applyGrayscaleMask (maskCtx e) (mainPixels e) (maskPixels e)"
  using assms(1-3)
  unfolding processImage_def Let_def w_def h_def cw_def ch_def fontSize_def top_def lines_def
  by simp

text \<open>The double nearest to \<open>1.2\<close>, and the font size and the first line's position.\<close>

lemma fl_6_5: "fl (6 / 5) = 5404319552844595 / 4503599627370496"
  using fl_at[of 0 "6 / 5"] by (simp add: roundTiesToEven_def)

lemma fontSize_bounds:
  assumes "0 \<le> w" and "0 \<le> h" and "w \<le> 2500"
  shows "14 \<le> max 14 (ddiv (min w h) 50)" and "max 14 (ddiv (min w h) 50) \<le> 50"
proof -
  show "14 \<le> max 14 (ddiv (min w h) 50)" by simp
  have lo: "0 \<le> min w h / 50" using assms by simp
  have "min w h \<le> 2500" using assms by simp
  then have "min w h / 50 \<le> 2500 / 50" by (intro divide_right_mono) simp_all
  then have hi: "min w h / 50 \<le> real_of_int 50" by simp
  have "\<bar>min w h / 50\<bar> < 2 ^ 53" using lo hi by simp
  then have "fl (min w h / 50) \<le> real_of_int 50" using hi by (rule fl_le_int)
  then show "max 14 (ddiv (min w h) 50) \<le> 50" by (simp add: ddiv_def)
qed

lemma fl_between:
  assumes "real_of_int a \<le> x" and "x \<le> real_of_int b" and "\<bar>a\<bar> < 2 ^ 53" and "\<bar>b\<bar> < 2 ^ 53"
  shows "real_of_int a \<le> fl x" and "fl x \<le> real_of_int b"
proof -
  have "\<bar>real_of_int a\<bar> < 2 ^ 53" "\<bar>real_of_int b\<bar> < 2 ^ 53"
    using assms(3,4) by (simp_all flip: of_int_abs add: of_int_less_numeral_power_cancel_iff)
  then have s: "\<bar>x\<bar> < 2 ^ 53" using assms(1,2) by linarith
  show "real_of_int a \<le> fl x" using s assms(1) by (rule fl_ge_int)
  show "fl x \<le> real_of_int b" using s assms(2) by (rule fl_le_int)
qed

lemma watermarkTop_bounds:
  fixes h :: nat and fontSize wt :: real
  assumes "h \<le> 2500" and "14 \<le> fontSize" and "fontSize \<le> 50"
  defines "wt \<equiv> dadd (dadd (dmul (dsub (dmul (real h) 1.25) (real h)) (fl 0.15)) (real h))
                     (dmul fontSize 1.5)"
  shows "0 \<le> wt" and "wt \<le> 3200"
proof -
  have ch: "dmul (real h) 1.25 = real h * (5 / 4)" using dmul_5_4[OF assms(1)] by simp
  have rh: "0 \<le> real h" "real h \<le> 2500" using assms(1) by simp_all
  define g where "g = dsub (dmul (real h) 1.25) (real h)"
  have g: "real_of_int 0 \<le> g \<and> g \<le> real_of_int 625"
    unfolding g_def dsub_def ch using rh
    by (intro conjI fl_between[where a = 0 and b = 625]) simp_all
  have c: "0 \<le> fl (3 / 20)" "fl (3 / 20) \<le> 1"
    using fl_between[of 0 "3 / 20" 1] by simp_all
  define y where "y = dmul g (fl 0.15)"
  have "g * fl (3 / 20) \<le> 625 * 1" using g c by (intro mult_mono) simp_all
  moreover have "0 \<le> g * fl (3 / 20)" using g c by simp
  ultimately have y: "real_of_int 0 \<le> y \<and> y \<le> real_of_int 625"
    unfolding y_def dmul_def by (intro conjI fl_between[where a = 0 and b = 625]) simp_all
  define b where "b = dadd y (real h)"
  have b: "real_of_int 0 \<le> b \<and> b \<le> real_of_int 3125"
    unfolding b_def dadd_def using y rh
    by (intro conjI fl_between[where a = 0 and b = 3125]) simp_all
  define s where "s = dmul fontSize 1.5"
  have s: "real_of_int 0 \<le> s \<and> s \<le> real_of_int 75"
    unfolding s_def dmul_def using assms(2,3)
    by (intro conjI fl_between[where a = 0 and b = 75]) simp_all
  have t: "wt = dadd b s" unfolding wt_def b_def y_def g_def s_def by simp
  have "real_of_int 0 \<le> wt \<and> wt \<le> real_of_int 3200"
    unfolding t dadd_def using b s
    by (intro conjI fl_between[where a = 0 and b = 3200]) simp_all
  then show "0 \<le> wt" and "wt \<le> 3200" by simp_all
qed

text \<open>
  The caption's position is \<open>watermarkTop + fontSize * 2\<close> and the third line's
  is \<open>watermarkTop + 2 * fontSize * 1.2\<close>: the third line is lower, also after rounding.
\<close>

lemma caption_above_third_line:
  assumes "0 \<le> y0" and "y0 \<le> 3200" and "14 \<le> fs" and "fs \<le> 50"
  shows "dadd y0 (dmul fs 2) < dadd y0 (dmul (dmul (real (2 :: nat)) fs) (fl 1.2))"
proof -
  define A where "A = fl (fs * 2)"
  have A: "real_of_int 28 \<le> A \<and> A \<le> real_of_int 100"
    unfolding A_def using assms(3,4)
    by (intro conjI fl_between[where a = 28 and b = 100]) simp_all
  define P where "P = A * (5404319552844595 / 4503599627370496)"
  have P: "A + 5 < P" "P < 200" unfolding P_def using A by simp_all
  have "\<bar>P\<bar> < 256" using P A by simp
  then have e1: "\<bar>fl P - P\<bar> \<le> 1 / 2 ^ 46" by (rule fl_error_256)
  have t: "(1 :: real) / 2 ^ 46 \<le> 1 / 100" "(1 :: real) / 2 ^ 41 \<le> 1 / 100" by simp_all
  have B: "A + 4 < fl P" "fl P < 201" using e1 P t by linarith+
  have "\<bar>y0 + A\<bar> < pow2 13" using assms(1,2) A by simp
  then have "\<bar>fl (y0 + A) - (y0 + A)\<bar> \<le> pow2 (13 - 54)" by (rule fl_error_below) simp
  then have e2: "\<bar>fl (y0 + A) - (y0 + A)\<bar> \<le> 1 / 2 ^ 41" by simp
  have "\<bar>y0 + fl P\<bar> < pow2 13" using assms(1,2) A B by simp
  then have "\<bar>fl (y0 + fl P) - (y0 + fl P)\<bar> \<le> pow2 (13 - 54)" by (rule fl_error_below) simp
  then have e3: "\<bar>fl (y0 + fl P) - (y0 + fl P)\<bar> \<le> 1 / 2 ^ 41" by simp
  have "fl (y0 + A) < fl (y0 + fl P)" using e2 e3 B t by linarith
  moreover have "dmul fs 2 = A" by (simp add: dmul_def A_def)
  moreover have "dmul (dmul (real (2 :: nat)) fs) (fl 1.2) = fl P"
    by (simp add: dmul_def A_def P_def fl_6_5 mult.commute)
  ultimately show ?thesis by (simp only: dadd_def)
qed

text \<open>
  The caption is drawn \<open>2 * fontSize\<close> below the first wrapped line and line \<open>k\<close> is
  drawn \<open>1.2 * k * fontSize\<close> below it, so the third line lies below the caption.
\<close>

lemma processImage_text_layout:
  fixes e :: env and img :: "32 word \<times> 32 word" and t :: js_string
    and w h cw ch fontSize top :: real and lines :: "js_string list"
  assumes "mainCtx e"
    and "width (resizeImage (resizeCtx e) img) \<noteq> 0"
    and "height (resizeImage (resizeCtx e) img) \<noteq> 0"
  defines "w \<equiv> real (width (resizeImage (resizeCtx e) img))"
    and "h \<equiv> real (height (resizeImage (resizeCtx e) img))"
  defines "cw \<equiv> dmul w (fl 1.1)"
    and "ch \<equiv> dmul h 1.25"
  defines "fontSize \<equiv> max 14 (ddiv (min w h) 50)"
  defines "top \<equiv> dadd (dadd (dmul (dsub ch h) (fl 0.15)) h) (dmul fontSize 1.5)"
  defines "lines \<equiv> wrapText t (dmul cw (fl 0.9)) fontSize"
  shows "FillText caption (dmul cw (fl 0.05)) (dadd top (dmul fontSize 2))
           \<in> set (calls (processImage e img t (Some c)))"
    and "k < length lines \<Longrightarrow>
           FillText (lines ! k) (dmul cw (fl 0.05))
               (dadd top (dmul (dmul (real k) fontSize) (fl 1.2)))
             \<in> set (calls (processImage e img t (Some c)))"
    and "dadd top (dmul fontSize 2)
           < dadd top (dmul (dmul (real (2 :: nat)) fontSize) (fl 1.2))"
proof -
  let ?r = "resizeImage (resizeCtx e) img"
  let ?f = "\<lambda>(index, line).
              FillText line (dmul cw (fl 0.05))
                (dadd top (dmul (dmul (real index) fontSize) (fl 1.2)))"
  note calls = processImage_calls[OF assms(1-3), of t c, folded w_def h_def,
      folded cw_def ch_def fontSize_def, folded top_def lines_def]
  have "width ?r \<le> 2500 \<and> height ?r \<le> 2500"
  proof (cases "resizeCtx e")
    case True
    then show ?thesis using resizeImage_le[of img] by simp
  next
    case False
    then show ?thesis by (simp add: resizeImage_def createCanvas_def)
  qed
  then have le: "width ?r \<le> 2500" "height ?r \<le> 2500" by simp_all
  have fs: "14 \<le> fontSize" "fontSize \<le> 50"
    unfolding fontSize_def w_def h_def using fontSize_bounds[of "real (width ?r)" "real (height ?r)"] le
    by simp_all
  have tb: "0 \<le> top" "top \<le> 3200"
    unfolding top_def ch_def h_def using watermarkTop_bounds[OF le(2) fs] by simp_all
  show "dadd top (dmul fontSize 2) < dadd top (dmul (dmul (real (2 :: nat)) fontSize) (fl 1.2))"
    using tb fs by (rule caption_above_third_line)
  show "FillText caption (dmul cw (fl 0.05)) (dadd top (dmul fontSize 2))
           \<in> set (calls (processImage e img t (Some c)))"
    unfolding calls by simp
  show "FillText (lines ! k) (dmul cw (fl 0.05))
               (dadd top (dmul (dmul (real k) fontSize) (fl 1.2)))
             \<in> set (calls (processImage e img t (Some c)))" if k: "k < length lines"
  proof -
    have "enumerate 0 lines ! k = (k, lines ! k)" using k by (simp add: nth_enumerate_eq)
    moreover have "k < length (enumerate 0 lines)" using k by simp
    ultimately have "(k, lines ! k) \<in> set (enumerate 0 lines)" by (metis nth_mem)
    then have "?f (k, lines ! k) \<in> ?f ` set (enumerate 0 lines)" by (rule imageI)
    then have "FillText (lines ! k) (dmul cw (fl 0.05))
               (dadd top (dmul (dmul (real k) fontSize) (fl 1.2)))
        \<in> set (map ?f (enumerate 0 lines))" by (simp only: set_map prod.case)
    then show ?thesis unfolding calls by (simp only: set_append) blast
  qed
qed

text \<open>
  The doubles of a 100 by 100 image with font size 14: the canvas is
  \<open>110.00000000000001\<close> wide, the image is drawn at \<open>x = 5.000000000000007\<close> and
  \<open>y = 3.75\<close>, the text at \<open>x = 5.500000000000001\<close>, the first line at \<open>y = 124.75\<close>, the
  second at \<open>141.55\<close>, the third at \<open>158.35\<close> and the caption at \<open>152.75\<close>; the lines may
  be \<open>99.00000000000001\<close> wide, and 12 and 25 characters are estimated at \<open>92.4\<close> and
  \<open>192.50000000000003\<close>.
\<close>

lemma fl_margin_100: "fl (703687441776641 / 70368744177664) = 703687441776641 / 70368744177664"
  using fl_at[of 3 "703687441776641 / 70368744177664"] by (simp add: roundTiesToEven_def)

lemma fl_imgX_100: "fl (703687441776641 / 140737488355328) = 703687441776641 / 140737488355328"
  using fl_at[of 2 "703687441776641 / 140737488355328"] by (simp add: roundTiesToEven_def)

lemma fl_3_20: "fl (3 / 20) = 5404319552844595 / 36028797018963968"
  using fl_at[of "- 3" "3 / 20"] by (simp add: roundTiesToEven_def)

lemma fl_imgY_100: "fl (135107988821114875 / 36028797018963968) = 15 / 4"
  using fl_at[of 1 "135107988821114875 / 36028797018963968"] by (simp add: roundTiesToEven_def)

lemma fl_bottom_100: "fl (415 / 4) = 415 / 4"
  using fl_at[of 6 "415 / 4"] by (simp add: roundTiesToEven_def)

lemma fl_top_100: "fl (499 / 4) = 499 / 4"
  using fl_at[of 6 "499 / 4"] by (simp add: roundTiesToEven_def)

lemma fl_caption_100: "fl (611 / 4) = 611 / 4"
  using fl_at[of 7 "611 / 4"] by (simp add: roundTiesToEven_def)

lemma fl_9_10: "fl (9 / 10) = 8106479329266893 / 9007199254740992"
  using fl_at[of "- 1" "9 / 10"] by (simp add: roundTiesToEven_def)

lemma fl_maxWidth_100:
  "fl (62748704711297365028678509841613 / 633825300114114700748351602688)
     = 6966505673588737 / 70368744177664"
  using fl_at[of 6 "62748704711297365028678509841613 / 633825300114114700748351602688"]
  by (simp add: roundTiesToEven_def)

lemma fl_1_20: "fl (1 / 20) = 3602879701896397 / 72057594037927936"
  using fl_at[of "- 5" "1 / 20"] by (simp add: roundTiesToEven_def)

lemma fl_textX_100:
  "fl (27888313205021051983919544323277 / 5070602400912917605986812821504)
     = 6192449487634433 / 1125899906842624"
  using fl_at[of 2 "27888313205021051983919544323277 / 5070602400912917605986812821504"]
  by (simp add: roundTiesToEven_def)

lemma fl_step_1: "fl (37830236869912165 / 2251799813685248) = 4728779608739021 / 281474976710656"
  using fl_at[of 4 "37830236869912165 / 2251799813685248"] by (simp add: roundTiesToEven_def)

lemma fl_line_1: "fl (39842782953393357 / 281474976710656) = 2490173934587085 / 17592186044416"
  using fl_at[of 7 "39842782953393357 / 281474976710656"] by (simp add: roundTiesToEven_def)

lemma fl_step_2: "fl (37830236869912165 / 1125899906842624) = 4728779608739021 / 140737488355328"
  using fl_at[of 5 "37830236869912165 / 1125899906842624"] by (simp add: roundTiesToEven_def)

lemma fl_line_2: "fl (22285781281066189 / 140737488355328) = 5571445320266547 / 35184372088832"
  using fl_at[of 7 "22285781281066189 / 140737488355328"] by (simp add: roundTiesToEven_def)

lemma fl_width_12: "fl (13004143924032309 / 140737488355328) = 3251035981008077 / 35184372088832"
  using fl_at[of 6 "13004143924032309 / 140737488355328"] by (simp add: roundTiesToEven_def)

lemma fl_width_25: "fl (108367866033602575 / 562949953421312) = 6772991627100161 / 35184372088832"
  using fl_at[of 7 "108367866033602575 / 562949953421312"] by (simp add: roundTiesToEven_def)

lemmas fl_caption =
  fl_numeral fl_11_10 fl_11_20 fl_charWidth_14 fl_width_100 fl_margin_100 fl_imgX_100 fl_3_20
  fl_imgY_100 fl_bottom_100 fl_top_100 fl_caption_100 fl_9_10 fl_maxWidth_100 fl_1_20
  fl_textX_100 fl_6_5 fl_step_1 fl_line_1 fl_step_2 fl_line_2 fl_width_12 fl_width_25

lemma wrapText_overlapText:
  "wrapText overlapText (6966505673588737 / 70368744177664) 14 =
     [map of_char ''AAAAAAAAAAAA'', map of_char ''BBBBBBBBBBBB'', map of_char ''CCCCCCCCCCCC'']"
  by (simp add: overlapText_def wrapText_def trim_def split_ws.simps isWhiteSpace_def
      wrapStep_def lineWidth_def Let_def dmul_def fl_caption)

text \<open>
  C7 fails on the code. The caption is drawn \<open>2 * fontSize\<close> below the first wrapped
  line, and line \<open>k\<close> is drawn \<open>1.2 * k * fontSize\<close> below it; from the third line on the
  text lies below the caption. For a 100 by 100 image and a text that wraps to three
  lines, the third line is drawn at \<open>y = 158.35\<close> and the caption at \<open>y = 152.75\<close>.
\<close>

theorem processImage_caption_overlap:
  "take 11 (calls (processImage idealEnv (100, 100) overlapText (Some createCanvas))) =
     [SetFillStyle ''white'', FillRect 0 0 (7740561859543041 / 70368744177664) 125,
      DrawImage ResizedCanvas (703687441776641 / 140737488355328) (15 / 4) 100 100,
      SetFont True 14, SetFillStyle ''black'', SetTextAlign ''start'',
      FillText (map of_char ''AAAAAAAAAAAA'') (6192449487634433 / 1125899906842624) (499 / 4),
      FillText (map of_char ''BBBBBBBBBBBB'') (6192449487634433 / 1125899906842624)
        (2490173934587085 / 17592186044416),
      FillText (map of_char ''CCCCCCCCCCCC'') (6192449487634433 / 1125899906842624)
        (5571445320266547 / 35184372088832),
      SetFont False 14,
      FillText caption (6192449487634433 / 1125899906842624) (611 / 4)] \<and>
   (611 / 4 :: real) < 5571445320266547 / 35184372088832"
  by (simp add: processImage_def idealEnv_def resizeImage_small Let_def wrapText_overlapText
      enumerate_eq_zip dmul_def ddiv_def dadd_def dsub_def fl_caption)

end
